theory Spec2Isabelle
  imports Main
begin

section \<open>Python values shared by both modules\<close>

text \<open>
  The exceptions the modelled code can raise.  \<open>RuntimeError\<close> is what
  \<open>TileSelector.__init__\<close> raises when \<open>pygame.image.load\<close> fails;
  \<open>ValueError\<close> is what \<open>random.randint(a, b)\<close> raises on an empty range.
\<close>

datatype py_error = IndexError | ValueError | ZeroDivisionError | FileNotFoundError | RuntimeError

text \<open>Python list indexing: a negative index counts from the end, anything else out of
  range raises \<open>IndexError\<close>.\<close>

definition py_index :: "nat \<Rightarrow> int \<Rightarrow> nat option" where
  "py_index n i =
     (let j = (if i < 0 then int n + i else i)
      in if 0 \<le> j \<and> j < int n then Some (nat j) else None)"

definition py_getitem :: "'a list \<Rightarrow> int \<Rightarrow> py_error + 'a" where
  "py_getitem xs i = (case py_index (length xs) i of None \<Rightarrow> Inl IndexError | Some k \<Rightarrow> Inr (xs ! k))"

text \<open>\<open>range(a, b)\<close> as the list of its values.\<close>

definition py_range :: "int \<Rightarrow> int \<Rightarrow> int list" where
  "py_range a b = [a..b - 1]"

section \<open>tile\_selector.py\<close>

text \<open>
  The file system and the image decoder are outside the repository.  A path is absent
  (\<open>os.path.exists\<close> is false), or holds a file that \<open>pygame.image.load\<close> decodes to
  a picture of some pixel width and height, or holds a file it rejects with
  \<open>pygame.error\<close>.
\<close>

datatype disk_file = Picture nat nat | Undecodable

type_synonym filesystem = "string \<Rightarrow> disk_file option"

definition path_exists :: "filesystem \<Rightarrow> string \<Rightarrow> bool" where
  "path_exists fs p = (fs p \<noteq> None)"

text \<open>A sliced tile: a \<open>tile_size\<close> square surface holding the area
  \<open>(left, top, w, h)\<close> of the sheet loaded from \<open>tile_source\<close>.\<close>

record tile =
  tile_source :: string
  tile_left :: int
  tile_top :: int
  tile_w :: int
  tile_h :: int

text \<open>The lines \<open>print\<close> writes during loading.\<close>

datatype message = Warning_not_found string | Load_ok nat string nat

record TileSelector =
  sel_tile_size :: int
  tileset_images :: "tile list list"
  tileset_names :: "string list"

definition basename :: "string \<Rightarrow> string" where
  "basename p = rev (takeWhile (\<lambda>c. c \<noteq> CHR ''/'') (rev p))"

definition cut_tile :: "string \<Rightarrow> int \<Rightarrow> int \<Rightarrow> int \<Rightarrow> tile" where
  "cut_tile p tile_size x y =
     \<lparr>tile_source = p, tile_left = x * tile_size, tile_top = y * tile_size,
      tile_w = tile_size, tile_h = tile_size\<rparr>"

text \<open>The two nested \<open>for\<close> loops of \<open>__init__\<close> that append one tile per
  \<open>(y, x)\<close> to \<open>tiles\<close>; \<open>width\<close> and \<open>height\<close> are the sheet's columns and rows.\<close>

definition slice_tiles :: "string \<Rightarrow> int \<Rightarrow> int \<Rightarrow> int \<Rightarrow> tile list" where
  "slice_tiles p tile_size width height =
     foldl (\<lambda>tiles y. foldl (\<lambda>tiles x. tiles @ [cut_tile p tile_size x y]) tiles (py_range 0 width))
       [] (py_range 0 height)"

text \<open>
  The body of the loading loop, one source at a time, with the selector built so far and
  the lines printed so far.  \<open>//\<close> by a zero tile size raises \<open>ZeroDivisionError\<close>,
  which the \<open>except pygame.error\<close> clause does not catch.
\<close>

fun load_tilesets ::
  "filesystem \<Rightarrow> int \<Rightarrow> (nat \<times> string) list \<Rightarrow> TileSelector \<Rightarrow> message list
     \<Rightarrow> message list \<times> (py_error + TileSelector)" where
  "load_tilesets fs tile_size [] sel out = (out, Inr sel)"
| "load_tilesets fs tile_size ((img_idx, img_path) # rest) sel out =
     (if \<not> path_exists fs img_path
      then load_tilesets fs tile_size rest sel (out @ [Warning_not_found img_path])
      else (case fs img_path of
              Some (Picture img_width img_height) \<Rightarrow>
                if tile_size = 0 then (out, Inl ZeroDivisionError)
                else
                  (let width = int img_width div tile_size;
                       height = int img_height div tile_size;
                       tiles = slice_tiles img_path tile_size width height
                   in load_tilesets fs tile_size rest
                        (sel\<lparr>tileset_images := tileset_images sel @ [tiles],
                             tileset_names := tileset_names sel @ [basename img_path]\<rparr>)
                        (out @ [Load_ok img_idx img_path (length tiles)]))
            | _ \<Rightarrow> (out, Inl RuntimeError)))"

definition TileSelector_init ::
  "filesystem \<Rightarrow> string list \<Rightarrow> int \<Rightarrow> message list \<times> (py_error + TileSelector)" where
  "TileSelector_init fs tileset_paths tile_size =
     load_tilesets fs tile_size (zip [0..<length tileset_paths] tileset_paths)
       \<lparr>sel_tile_size = tile_size, tileset_images = [], tileset_names = []\<rparr> []"

definition get_tile :: "TileSelector \<Rightarrow> int \<Rightarrow> int \<Rightarrow> py_error + tile option" where
  "get_tile sel tileset_idx tile_idx =
     (if 0 \<le> tileset_idx \<and> tileset_idx < int (length (tileset_images sel))
      then (case py_getitem (tileset_images sel) tileset_idx of
              Inl e \<Rightarrow> Inl e
            | Inr tiles \<Rightarrow>
                if 0 \<le> tile_idx \<and> tile_idx < int (length tiles)
                then (case py_getitem tiles tile_idx of Inl e \<Rightarrow> Inl e | Inr t \<Rightarrow> Inr (Some t))
                else Inr None)
      else Inr None)"

definition get_tileset_count :: "TileSelector \<Rightarrow> int" where
  "get_tileset_count sel = int (length (tileset_images sel))"

definition get_tileset_name :: "TileSelector \<Rightarrow> int \<Rightarrow> py_error + string option" where
  "get_tileset_name sel tileset_idx =
     (if 0 \<le> tileset_idx \<and> tileset_idx < int (length (tileset_names sel))
      then (case py_getitem (tileset_names sel) tileset_idx of Inl e \<Rightarrow> Inl e | Inr n \<Rightarrow> Inr (Some n))
      else Inr None)"

definition get_tile_count :: "TileSelector \<Rightarrow> int \<Rightarrow> py_error + int" where
  "get_tile_count sel tileset_idx =
     (if 0 \<le> tileset_idx \<and> tileset_idx < int (length (tileset_images sel))
      then (case py_getitem (tileset_images sel) tileset_idx of
              Inl e \<Rightarrow> Inl e | Inr tiles \<Rightarrow> Inr (int (length tiles)))
      else Inr 0)"

section \<open>map\_generator.py\<close>

text \<open>
  \<open>pygame.Rect\<close> belongs to the pygame library.  It keeps its four fields as 32-bit C
  integers: a value outside that range wraps, and one outside C \<open>long\<close> makes the
  constructor raise \<open>TypeError\<close>.  The record below holds the fields as unbounded
  integers; it is the same rectangle whenever the fields and the two far edges fit 32 bits
  (\<open>rect_fits\<close>), which is so for every room drawn with sizes that are not negative on a
  grid of fewer than \<open>2 ^ 31\<close> cells a side (\<open>draw_room_fits\<close> below).  \<open>center\<close> is
  \<open>(x + (w >> 1), y + (h >> 1))\<close>: the arithmetic shift rounds down, as \<open>div\<close> does.
\<close>

record rect =
  rect_x :: int
  rect_y :: int
  rect_w :: int
  rect_h :: int

definition Rect :: "int \<Rightarrow> int \<Rightarrow> int \<Rightarrow> int \<Rightarrow> rect" where
  "Rect x y w h = \<lparr>rect_x = x, rect_y = y, rect_w = w, rect_h = h\<rparr>"

definition left :: "rect \<Rightarrow> int" where "left r = rect_x r"
definition right :: "rect \<Rightarrow> int" where "right r = rect_x r + rect_w r"
definition top :: "rect \<Rightarrow> int" where "top r = rect_y r"
definition bottom :: "rect \<Rightarrow> int" where "bottom r = rect_y r + rect_h r"

definition center :: "rect \<Rightarrow> int \<times> int" where
  "center r = (rect_x r + rect_w r div 2, rect_y r + rect_h r div 2)"

definition c_int :: "int \<Rightarrow> bool" where
  "c_int v = (- (2 ^ 31) \<le> v \<and> v < 2 ^ 31)"

definition rect_fits :: "rect \<Rightarrow> bool" where
  "rect_fits r =
     (c_int (rect_x r) \<and> c_int (rect_y r) \<and> c_int (rect_w r) \<and> c_int (rect_h r)
      \<and> c_int (right r) \<and> c_int (bottom r))"

record MapGenerator =
  width :: int
  height :: int
  tile_size :: int
  room_count :: int
  room_min_size :: int
  room_max_size :: int
  tilemap :: "int list list"
  rooms :: "rect list"
  tile_selector :: TileSelector
  floor_tileset :: int
  floor_tile :: int
  wall_tileset :: int
  wall_tile :: int

text \<open>
  A method that mutates \<open>self\<close> returns the new object, or the exception together with
  the object as the exception leaves it (nothing in the module rolls a mutation back).
\<close>

type_synonym 'a raising = "(py_error \<times> 'a) + 'a"

text \<open>A \<open>for\<close> loop over a list of values whose body may raise.\<close>

fun for_each :: "'a list \<Rightarrow> ('a \<Rightarrow> 's \<Rightarrow> 's raising) \<Rightarrow> 's \<Rightarrow> 's raising" where
  "for_each [] body s = Inr s"
| "for_each (x # xs) body s = (case body x s of Inl e \<Rightarrow> Inl e | Inr s' \<Rightarrow> for_each xs body s')"

text \<open>
  \<open>random.randint(a, b)\<close>: the module's generator is global state; here it is the
  stream \<open>rng\<close> of raw values, read at position \<open>k\<close>.  Every value of \<open>[a, b]\<close> can be
  drawn (take \<open>rng k = v - a\<close>) and no other; an empty range raises \<open>ValueError\<close>.
\<close>

definition randint :: "(nat \<Rightarrow> int) \<Rightarrow> nat \<Rightarrow> int \<Rightarrow> int \<Rightarrow> py_error + int" where
  "randint rng k a b = (if b < a then Inl ValueError else Inr (a + rng k mod (b - a + 1)))"

text \<open>\<open>self.tilemap[x][y]\<close> and \<open>self.tilemap[x][y] = v\<close>.\<close>

definition tilemap_get :: "MapGenerator \<Rightarrow> int \<Rightarrow> int \<Rightarrow> py_error + int" where
  "tilemap_get s x y =
     (case py_getitem (tilemap s) x of Inl e \<Rightarrow> Inl e | Inr col \<Rightarrow> py_getitem col y)"

definition tilemap_set :: "MapGenerator \<Rightarrow> int \<Rightarrow> int \<Rightarrow> int \<Rightarrow> MapGenerator raising" where
  "tilemap_set s x y v =
     (case py_index (length (tilemap s)) x of
        None \<Rightarrow> Inl (IndexError, s)
      | Some i \<Rightarrow>
          (let col = tilemap s ! i
           in case py_index (length col) y of
                None \<Rightarrow> Inl (IndexError, s)
              | Some j \<Rightarrow> Inr (s\<lparr>tilemap := (tilemap s)[i := col[j := v]]\<rparr>)))"

text \<open>The search of \<open>__init__\<close> for the first path pattern whose first file exists.\<close>

definition possible_paths :: "string list list" where
  "possible_paths =
     [[''assets/tileset1.png'', ''assets/tileset2.png''],
      [''Assets/tileset1.png'', ''Assets/tileset2.png''],
      [''tileset1.png'', ''tileset2.png'']]"

fun find_tileset_paths :: "filesystem \<Rightarrow> string list list \<Rightarrow> py_error + string list option" where
  "find_tileset_paths fs [] = Inr None"
| "find_tileset_paths fs (paths # rest) =
     (case py_getitem paths 0 of
        Inl e \<Rightarrow> Inl e
      | Inr p0 \<Rightarrow>
          if path_exists fs p0 then Inr (Some (filter (path_exists fs) paths))
          else find_tileset_paths fs rest)"

definition MapGenerator_init ::
  "filesystem \<Rightarrow> int \<Rightarrow> int \<Rightarrow> int \<Rightarrow> int \<Rightarrow> int \<Rightarrow> int \<Rightarrow> int
     \<Rightarrow> message list \<times> (py_error + MapGenerator)" where
  "MapGenerator_init fs w h ts floor_ts floor_t wall_ts wall_t =
     (let cells = map (\<lambda>_. map (\<lambda>_. 0) (py_range 0 h)) (py_range 0 w)
      in case find_tileset_paths fs possible_paths of
           Inl e \<Rightarrow> ([], Inl e)
         | Inr found \<Rightarrow>
             (case found of
                None \<Rightarrow> ([], Inl FileNotFoundError)
              | Some tileset_paths \<Rightarrow>
                  if tileset_paths = [] then ([], Inl FileNotFoundError)
                  else (case TileSelector_init fs tileset_paths ts of
                          (out, Inl e) \<Rightarrow> (out, Inl e)
                        | (out, Inr sel) \<Rightarrow>
                            (out, Inr \<lparr>width = w, height = h, tile_size = ts, room_count = 5,
                                       room_min_size = 6, room_max_size = 15, tilemap = cells,
                                       rooms = [], tile_selector = sel,
                                       floor_tileset = floor_ts, floor_tile = floor_t,
                                       wall_tileset = wall_ts, wall_tile = wall_t\<rparr>))))"

definition set_tiles :: "MapGenerator \<Rightarrow> int \<Rightarrow> int \<Rightarrow> int \<Rightarrow> int \<Rightarrow> MapGenerator" where
  "set_tiles s floor_ts floor_t wall_ts wall_t =
     s\<lparr>floor_tileset := floor_ts, floor_tile := floor_t,
       wall_tileset := wall_ts, wall_tile := wall_t\<rparr>"

definition create_room :: "MapGenerator \<Rightarrow> rect \<Rightarrow> MapGenerator raising" where
  "create_room s room =
     for_each (py_range (left room) (right room))
       (\<lambda>x s. for_each (py_range (top room) (bottom room))
                 (\<lambda>y s. if 0 \<le> x \<and> x < width s \<and> 0 \<le> y \<and> y < height s
                         then tilemap_set s x y 1 else Inr s) s) s"

text \<open>
  The two \<open>while\<close> loops of \<open>create_corridor\<close>.  Each runs until its coordinate equals
  the target, so for a step that leads away from the target it never returns: the loops
  are partial functions, and \<open>None\<close> stands for not returning.
\<close>

partial_function (option) corridor_h ::
  "MapGenerator \<Rightarrow> int \<Rightarrow> int \<Rightarrow> int \<Rightarrow> int \<Rightarrow> MapGenerator raising option" where
  "corridor_h s x x2 y1 step_x =
     (if x \<noteq> x2
      then (case (if 0 \<le> x \<and> x < width s \<and> 0 \<le> y1 \<and> y1 < height s
                  then tilemap_set s x y1 1 else Inr s) of
              Inl e \<Rightarrow> Some (Inl e)
            | Inr s' \<Rightarrow> corridor_h s' (x + step_x) x2 y1 step_x)
      else Some (Inr s))"

declare corridor_h.simps [code]

partial_function (option) corridor_v ::
  "MapGenerator \<Rightarrow> int \<Rightarrow> int \<Rightarrow> int \<Rightarrow> int \<Rightarrow> MapGenerator raising option" where
  "corridor_v s y y2 x2 step_y =
     (if y \<noteq> y2
      then (case (if 0 \<le> x2 \<and> x2 < width s \<and> 0 \<le> y \<and> y < height s
                  then tilemap_set s x2 y 1 else Inr s) of
              Inl e \<Rightarrow> Some (Inl e)
            | Inr s' \<Rightarrow> corridor_v s' (y + step_y) y2 x2 step_y)
      else Some (Inr s))"

declare corridor_v.simps [code]

definition create_corridor ::
  "MapGenerator \<Rightarrow> int \<times> int \<Rightarrow> int \<times> int \<Rightarrow> MapGenerator raising option" where
  "create_corridor s start end' =
     (case start of (x1, y1) \<Rightarrow> case end' of (x2, y2) \<Rightarrow>
        (let step_x = (if x1 < x2 then 1 else - 1)
         in case corridor_h s x1 x2 y1 step_x of
              None \<Rightarrow> None
            | Some (Inl e) \<Rightarrow> Some (Inl e)
            | Some (Inr s1) \<Rightarrow>
                (let step_y = (if y1 < y2 then 1 else - 1)
                 in corridor_v s1 y1 y2 x2 step_y)))"

text \<open>The four draws at the head of the body of the room loop, from position \<open>k\<close> of the
  stream, and the rectangle they give.\<close>

definition draw_room :: "MapGenerator \<Rightarrow> (nat \<Rightarrow> int) \<Rightarrow> nat \<Rightarrow> py_error + rect" where
  "draw_room s rng k =
     (case randint rng k (room_min_size s) (room_max_size s) of
        Inl e \<Rightarrow> Inl e
      | Inr w \<Rightarrow>
     (case randint rng (k + 1) (room_min_size s) (room_max_size s) of
        Inl e \<Rightarrow> Inl e
      | Inr h \<Rightarrow>
     (case randint rng (k + 2) 1 (width s - w - 1) of
        Inl e \<Rightarrow> Inl e
      | Inr x \<Rightarrow>
     (case randint rng (k + 3) 1 (height s - h - 1) of
        Inl e \<Rightarrow> Inl e
      | Inr y \<Rightarrow> Inr (Rect x y w h)))))"

text \<open>The body of \<open>for i in range(self.room_count)\<close>.\<close>

definition generate_room ::
  "(nat \<Rightarrow> int) \<Rightarrow> nat \<Rightarrow> int \<Rightarrow> MapGenerator \<Rightarrow> MapGenerator raising option" where
  "generate_room rng k i s =
     (case draw_room s rng k of
        Inl e \<Rightarrow> Some (Inl (e, s))
      | Inr room \<Rightarrow>
          (case create_room (s\<lparr>rooms := rooms s @ [room]\<rparr>) room of
             Inl e \<Rightarrow> Some (Inl e)
           | Inr s2 \<Rightarrow>
               if i > 0
               then (case py_getitem (rooms s2) (i - 1) of
                       Inl e \<Rightarrow> Some (Inl (e, s2))
                     | Inr prev \<Rightarrow> create_corridor s2 (center prev) (center room))
               else Some (Inr s2)))"

fun generate_rooms ::
  "(nat \<Rightarrow> int) \<Rightarrow> nat \<Rightarrow> int list \<Rightarrow> MapGenerator \<Rightarrow> MapGenerator raising option" where
  "generate_rooms rng k [] s = Some (Inr s)"
| "generate_rooms rng k (i # is) s =
     (case generate_room rng k i s of
        None \<Rightarrow> None
      | Some (Inl e) \<Rightarrow> Some (Inl e)
      | Some (Inr s') \<Rightarrow> generate_rooms rng (k + 4) is s')"

definition clear_tilemap :: "MapGenerator \<Rightarrow> MapGenerator raising" where
  "clear_tilemap s =
     for_each (py_range 0 (width s))
       (\<lambda>x s. for_each (py_range 0 (height s)) (\<lambda>y s. tilemap_set s x y 0) s) s"

definition generate :: "MapGenerator \<Rightarrow> (nat \<Rightarrow> int) \<Rightarrow> MapGenerator raising option" where
  "generate s rng =
     (case clear_tilemap (s\<lparr>rooms := []\<rparr>) of
        Inl e \<Rightarrow> Some (Inl e)
      | Inr s1 \<Rightarrow> generate_rooms rng 0 (py_range 0 (room_count s1)) s1)"

definition get_tile_at :: "MapGenerator \<Rightarrow> int \<Rightarrow> int \<Rightarrow> py_error + int" where
  "get_tile_at s x y =
     (if 0 \<le> x \<and> x < width s \<and> 0 \<le> y \<and> y < height s then tilemap_get s x y else Inr 0)"

definition is_walkable :: "MapGenerator \<Rightarrow> int \<Rightarrow> int \<Rightarrow> py_error + bool" where
  "is_walkable s x y = (case get_tile_at s x y of Inl e \<Rightarrow> Inl e | Inr v \<Rightarrow> Inr (v = 1))"

text \<open>
  The calls \<open>draw\<close> makes on the target surface, in the order it makes them:
  \<open>surface.blit(image, (x, y))\<close> and \<open>pygame.draw.rect(surface, colour, (x, y, w, h))\<close>.
\<close>

datatype draw_op = Blit tile "int \<times> int" | Fill_rect "int \<times> int \<times> int" "int \<times> int \<times> int \<times> int"

definition paint :: "tile option \<Rightarrow> int \<times> int \<times> int \<Rightarrow> int \<Rightarrow> int \<times> int \<Rightarrow> draw_op" where
  "paint img fallback side pos =
     (case img of
        Some t \<Rightarrow> Blit t pos
      | None \<Rightarrow> Fill_rect fallback (fst pos, snd pos, side, side))"

definition screen_pos :: "MapGenerator \<Rightarrow> int \<Rightarrow> int \<Rightarrow> int \<Rightarrow> int \<Rightarrow> int \<times> int" where
  "screen_pos s camera_x camera_y x y = (x * tile_size s - camera_x, y * tile_size s - camera_y)"

definition draw_floor_cell ::
  "MapGenerator \<Rightarrow> tile option \<Rightarrow> int \<Rightarrow> int \<Rightarrow> int \<Rightarrow> int \<Rightarrow> draw_op list \<Rightarrow> draw_op list raising" where
  "draw_floor_cell s floor_image camera_x camera_y x y ops =
     (case tilemap_get s x y of
        Inl e \<Rightarrow> Inl (e, ops)
      | Inr c \<Rightarrow>
          if c = 1
          then Inr (ops @ [paint floor_image (200, 200, 200) (tile_size s) (screen_pos s camera_x camera_y x y)])
          else Inr ops)"

definition draw_wall_cell ::
  "MapGenerator \<Rightarrow> tile option \<Rightarrow> int \<Rightarrow> int \<Rightarrow> int \<Rightarrow> int \<Rightarrow> draw_op list \<Rightarrow> draw_op list raising" where
  "draw_wall_cell s wall_image camera_x camera_y x y ops =
     (case tilemap_get s x y of
        Inl e \<Rightarrow> Inl (e, ops)
      | Inr c \<Rightarrow>
          if c = 0
          then (if y < height s - 1
                then (case tilemap_get s x (y + 1) of
                        Inl e \<Rightarrow> Inl (e, ops)
                      | Inr below \<Rightarrow>
                          if below = 1
                          then Inr (ops @ [paint wall_image (80, 60, 40) (tile_size s)
                                             (screen_pos s camera_x camera_y x y)])
                          else Inr ops)
                else Inr ops)
          else Inr ops)"

definition draw ::
  "MapGenerator \<Rightarrow> int \<times> int \<Rightarrow> int \<Rightarrow> int \<Rightarrow> draw_op list raising" where
  "draw s surface_size camera_x camera_y =
     (case surface_size of (screen_w, screen_h) \<Rightarrow>
        if tile_size s = 0 then Inl (ZeroDivisionError, [])
        else
          (let start_x = max 0 (camera_x div tile_size s);
               end_x = min (width s) ((camera_x + screen_w) div tile_size s + 1);
               start_y = max 0 (camera_y div tile_size s);
               end_y = min (height s) ((camera_y + screen_h) div tile_size s + 1)
           in case get_tile (tile_selector s) (floor_tileset s) (floor_tile s) of
                Inl e \<Rightarrow> Inl (e, [])
              | Inr floor_image \<Rightarrow>
           (case get_tile (tile_selector s) (wall_tileset s) (wall_tile s) of
                Inl e \<Rightarrow> Inl (e, [])
              | Inr wall_image \<Rightarrow>
           (case for_each (py_range start_x end_x)
                   (\<lambda>x ops. for_each (py_range start_y end_y)
                      (draw_floor_cell s floor_image camera_x camera_y x) ops) [] of
                Inl e \<Rightarrow> Inl e
              | Inr ops1 \<Rightarrow>
                  for_each (py_range start_x end_x)
                    (\<lambda>x ops. for_each (py_range start_y end_y)
                       (draw_wall_cell s wall_image camera_x camera_y x) ops) ops1))))"

section \<open>Predicates used to state the properties\<close>

definition in_grid :: "MapGenerator \<Rightarrow> int \<Rightarrow> int \<Rightarrow> bool" where
  "in_grid s x y = (0 \<le> x \<and> x < width s \<and> 0 \<le> y \<and> y < height s)"

definition grid_ok :: "MapGenerator \<Rightarrow> bool" where
  "grid_ok s = (length (tilemap s) = nat (width s) \<and> (\<forall>col \<in> set (tilemap s). length col = nat (height s)))"

definition cells_ok :: "MapGenerator \<Rightarrow> bool" where
  "cells_ok s = (\<forall>col \<in> set (tilemap s). \<forall>c \<in> set col. c = 0 \<or> c = 1)"

definition grid_inv :: "MapGenerator \<Rightarrow> bool" where
  "grid_inv s = (grid_ok s \<and> cells_ok s)"

definition painted :: "MapGenerator \<Rightarrow> (int \<times> int) set \<Rightarrow> int \<Rightarrow> MapGenerator \<Rightarrow> bool" where
  "painted s C v s' =
     ((\<exists>tm. s' = s\<lparr>tilemap := tm\<rparr>) \<and> grid_ok s' \<and>
      (\<forall>x y. get_tile_at s' x y = (if in_grid s x y \<and> (x, y) \<in> C then Inr v else get_tile_at s x y)))"

text \<open>
  The corridor as the specification words it: the cells from \<open>a\<close> toward \<open>b\<close>, one step
  at a time and without \<open>b\<close> itself; the horizontal run on the row of the start, then the
  vertical run on the column of the end; each cell carved when it lies in the grid and
  skipped otherwise.
\<close>

definition toward :: "int \<Rightarrow> int \<Rightarrow> int list" where
  "toward a b = (if a < b then [a..b - 1] else rev [b + 1..a])"

definition corridor_cells :: "int \<times> int \<Rightarrow> int \<times> int \<Rightarrow> (int \<times> int) list" where
  "corridor_cells start end' =
     (case start of (x1, y1) \<Rightarrow> case end' of (x2, y2) \<Rightarrow>
        map (\<lambda>x. (x, y1)) (toward x1 x2) @ map (\<lambda>y. (x2, y)) (toward y1 y2))"

definition carve_cell :: "int \<times> int \<Rightarrow> MapGenerator \<Rightarrow> MapGenerator raising" where
  "carve_cell c s =
     (case c of (x, y) \<Rightarrow>
        if 0 \<le> x \<and> x < width s \<and> 0 \<le> y \<and> y < height s then tilemap_set s x y 1 else Inr s)"

definition corridor_spec :: "MapGenerator \<Rightarrow> int \<times> int \<Rightarrow> int \<times> int \<Rightarrow> MapGenerator raising" where
  "corridor_spec s start end' = for_each (corridor_cells start end') carve_cell s"

definition room_cells :: "rect \<Rightarrow> (int \<times> int) set" where
  "room_cells r = {(x, y). left r \<le> x \<and> x < right r \<and> top r \<le> y \<and> y < bottom r}"

definition room_in_border :: "MapGenerator \<Rightarrow> rect \<Rightarrow> bool" where
  "room_in_border s r =
     (1 \<le> rect_x r \<and> 1 \<le> rect_y r \<and>
      rect_x r + rect_w r \<le> width s - 1 \<and> rect_y r + rect_h r \<le> height s - 1)"

text \<open>What iteration \<open>j\<close> of the room loop carves: room \<open>j\<close>, and for \<open>j > 0\<close> the corridor
  from the centre of room \<open>j - 1\<close> to the centre of room \<open>j\<close>.\<close>

definition carving :: "rect list \<Rightarrow> nat \<Rightarrow> (int \<times> int) set" where
  "carving rs j =
     room_cells (rs ! j) \<union>
     (if 0 < j then set (corridor_cells (center (rs ! (j - 1))) (center (rs ! j))) else {})"

text \<open>The object a run of \<open>generate\<close> leaves when it has made the rooms \<open>rs\<close>: only
  \<open>rooms\<close> and \<open>tilemap\<close> differ from the object before, and a cell is Floor exactly when
  it lies in the grid and in the carving of one of the rooms.\<close>

definition generated :: "MapGenerator \<Rightarrow> rect list \<Rightarrow> MapGenerator \<Rightarrow> bool" where
  "generated s rs s' =
     ((\<exists>tm. s' = s\<lparr>rooms := rs, tilemap := tm\<rparr>) \<and> grid_ok s' \<and>
      (\<forall>x y. get_tile_at s' x y =
               Inr (if in_grid s x y \<and> (\<exists>j < length rs. (x, y) \<in> carving rs j) then 1 else 0)))"

text \<open>The tiles of the sheet at path \<open>p\<close>, when it holds a picture.\<close>

definition sheet_tiles :: "filesystem \<Rightarrow> int \<Rightarrow> string \<Rightarrow> tile list" where
  "sheet_tiles fs ts p =
     (case fs p of
        Some (Picture img_width img_height) \<Rightarrow>
          slice_tiles p ts (int img_width div ts) (int img_height div ts)
      | _ \<Rightarrow> [])"

fun is_warning :: "message \<Rightarrow> bool" where
  "is_warning (Warning_not_found p) = True"
| "is_warning (Load_ok i p n) = False"

text \<open>
  The drawing as the specification words it: the visible window, the floor pass (one
  operation per Floor cell of the window) and the wall pass (one operation per Wall cell
  of the window whose cell below is in the grid and is Floor).
\<close>

definition visible_cells :: "MapGenerator \<Rightarrow> int \<times> int \<Rightarrow> int \<Rightarrow> int \<Rightarrow> (int \<times> int) list" where
  "visible_cells s surface_size camera_x camera_y =
     List.product
       (py_range (max 0 (camera_x div tile_size s))
                 (min (width s) ((camera_x + fst surface_size) div tile_size s + 1)))
       (py_range (max 0 (camera_y div tile_size s))
                 (min (height s) ((camera_y + snd surface_size) div tile_size s + 1)))"

definition floor_pass :: "MapGenerator \<Rightarrow> tile option \<Rightarrow> int \<Rightarrow> int \<Rightarrow> (int \<times> int) list \<Rightarrow> draw_op list" where
  "floor_pass s img camera_x camera_y cells =
     map (\<lambda>(x, y). paint img (200, 200, 200) (tile_size s) (screen_pos s camera_x camera_y x y))
       (filter (\<lambda>(x, y). get_tile_at s x y = Inr 1) cells)"

definition wall_pass :: "MapGenerator \<Rightarrow> tile option \<Rightarrow> int \<Rightarrow> int \<Rightarrow> (int \<times> int) list \<Rightarrow> draw_op list" where
  "wall_pass s img camera_x camera_y cells =
     map (\<lambda>(x, y). paint img (80, 60, 40) (tile_size s) (screen_pos s camera_x camera_y x y))
       (filter (\<lambda>(x, y). get_tile_at s x y = Inr 0 \<and> in_grid s x (y + 1) \<and> get_tile_at s x (y + 1) = Inr 1)
          cells)"

section \<open>Example objects\<close>

text \<open>Concrete objects on which the theorems below are exercised.\<close>

definition example_selector :: TileSelector where
  "example_selector =
     \<lparr>sel_tile_size = 48,
      tileset_images = [[cut_tile ''assets/tileset1.png'' 48 0 0, cut_tile ''assets/tileset1.png'' 48 1 0]],
      tileset_names = [''tileset1.png'']\<rparr>"

definition example_map :: MapGenerator where
  "example_map =
     \<lparr>width = 8, height = 7, tile_size = 48, room_count = 2, room_min_size = 2, room_max_size = 3,
      tilemap = replicate 8 (replicate 7 0), rooms = [], tile_selector = example_selector,
      floor_tileset = 0, floor_tile = 0, wall_tileset = 0, wall_tile = 1\<rparr>"

definition example_rng :: "nat \<Rightarrow> int" where
  "example_rng k = (if k = 6 then 4 else if k = 7 then 3 else 0)"

definition example_generated :: MapGenerator where
  "example_generated =
     example_map
       \<lparr>tilemap := [[0, 0, 0, 0, 0, 0, 0], [0, 1, 1, 0, 0, 0, 0], [0, 1, 1, 0, 0, 0, 0],
                   [0, 0, 1, 0, 0, 0, 0], [0, 0, 1, 0, 0, 0, 0], [0, 0, 1, 0, 1, 1, 0],
                   [0, 0, 1, 1, 1, 1, 0], [0, 0, 0, 0, 0, 0, 0]],
        rooms := [Rect 1 1 2 2, Rect 5 4 2 2]\<rparr>"

text \<open>A 20 by 17 grid with the configuration \<open>__init__\<close> sets, and a stream of draws for it.\<close>

definition default_map :: MapGenerator where
  "default_map =
     \<lparr>width = 20, height = 17, tile_size = 48, room_count = 5, room_min_size = 6, room_max_size = 15,
      tilemap = replicate 20 (replicate 17 0), rooms = [], tile_selector = example_selector,
      floor_tileset = 0, floor_tile = 0, wall_tileset = 0, wall_tile = 1\<rparr>"

definition default_rng :: "nat \<Rightarrow> int" where
  "default_rng k = int k * 5"

text \<open>A 10 by 10 grid as \<open>__init__\<close> leaves it, a stream whose second room is 9 wide, and
  the object the failing \<open>generate\<close> leaves.\<close>

definition fresh_map :: MapGenerator where
  "fresh_map =
     \<lparr>width = 10, height = 10, tile_size = 48, room_count = 5, room_min_size = 6, room_max_size = 15,
      tilemap = replicate 10 (replicate 10 0), rooms = [], tile_selector = example_selector,
      floor_tileset = 0, floor_tile = 0, wall_tileset = 0, wall_tile = 1\<rparr>"

definition small_fs :: filesystem where
  "small_fs p = (if p = ''assets/tileset1.png'' then Some (Picture 96 48) else None)"

definition fresh_rng :: "nat \<Rightarrow> int" where
  "fresh_rng k = (if k = 4 then 3 else 0)"

definition fresh_failed :: MapGenerator where
  "fresh_failed =
     fresh_map
       \<lparr>tilemap := replicate 10 0 # replicate 6 ([0, 1, 1, 1, 1, 1, 1, 0, 0, 0]) @ replicate 3 (replicate 10 0),
        rooms := [Rect 1 1 6 6]\<rparr>"

definition example_fs :: filesystem where
  "example_fs p =
     (if p = ''assets/tileset1.png'' then Some (Picture 480 48)
      else if p = ''assets/ragged.png'' then Some (Picture 100 50)
      else if p = ''assets/sheet.png'' then Some (Picture 150 100)
      else if p = ''assets/broken.png'' then Some Undecodable
      else None)"

section \<open>Facts about the Python primitives\<close>

lemma py_index_in_range: "0 \<le> i \<Longrightarrow> i < int n \<Longrightarrow> py_index n i = Some (nat i)"
  by (simp add: py_index_def)

lemma py_getitem_in_range: "0 \<le> i \<Longrightarrow> i < int (length xs) \<Longrightarrow> py_getitem xs i = Inr (xs ! nat i)"
  by (simp add: py_getitem_def py_index_in_range)

lemma get_tile_count_in_range:
  "0 \<le> i \<Longrightarrow> i < get_tileset_count sel \<Longrightarrow>
     get_tile_count sel i = Inr (int (length (tileset_images sel ! nat i)))"
  by (simp add: get_tile_count_def get_tileset_count_def py_getitem_in_range)

section \<open>Single cell reads and writes\<close>

lemma tilemap_get_in_grid:
  "grid_ok s \<Longrightarrow> in_grid s x y \<Longrightarrow> tilemap_get s x y = Inr (tilemap s ! nat x ! nat y)"
  by (simp add: grid_ok_def in_grid_def tilemap_get_def py_getitem_in_range)

lemma get_tile_at_in_grid:
  "grid_ok s \<Longrightarrow> in_grid s x y \<Longrightarrow> get_tile_at s x y = Inr (tilemap s ! nat x ! nat y)"
  using tilemap_get_in_grid by (simp add: get_tile_at_def in_grid_def)

lemma get_tile_at_outside: "\<not> in_grid s x y \<Longrightarrow> get_tile_at s x y = Inr 0"
  by (auto simp add: get_tile_at_def in_grid_def)

lemma tilemap_set_in_grid:
  "grid_ok s \<Longrightarrow> in_grid s x y \<Longrightarrow>
   tilemap_set s x y v = Inr (s\<lparr>tilemap := (tilemap s)[nat x := (tilemap s ! nat x)[nat y := v]]\<rparr>)"
  by (simp add: grid_ok_def in_grid_def tilemap_set_def py_index_in_range)

lemma grid_ok_update:
  assumes "grid_ok s"
  shows "grid_ok (s\<lparr>tilemap := (tilemap s)[i := (tilemap s ! i)[j := v]]\<rparr>)"
proof (cases "i < length (tilemap s)")
  case False
  then have "length (tilemap s) \<le> i" by simp
  then have "(tilemap s)[i := (tilemap s ! i)[j := v]] = tilemap s" by (rule list_update_beyond)
  then show ?thesis using assms by (simp add: grid_ok_def)
next
  case True
  then have len: "length ((tilemap s ! i)[j := v]) = nat (height s)"
    using assms by (simp add: grid_ok_def)
  have "set ((tilemap s)[i := (tilemap s ! i)[j := v]]) \<subseteq> insert ((tilemap s ! i)[j := v]) (set (tilemap s))"
    by (rule set_update_subset_insert)
  then have "\<forall>col \<in> set ((tilemap s)[i := (tilemap s ! i)[j := v]]). length col = nat (height s)"
    using len assms by (auto simp: grid_ok_def)
  then show ?thesis using assms by (simp add: grid_ok_def)
qed

lemma tilemap_set_painted:
  assumes "grid_ok s" "in_grid s x y"
  shows "\<exists>s'. tilemap_set s x y v = Inr s' \<and> painted s {(x, y)} v s'"
proof -
  let ?s' = "s\<lparr>tilemap := (tilemap s)[nat x := (tilemap s ! nat x)[nat y := v]]\<rparr>"
  have ok: "grid_ok ?s'" using assms(1) by (rule grid_ok_update)
  have ig: "\<And>a b. in_grid ?s' a b = in_grid s a b" by (simp add: in_grid_def)
  have "get_tile_at ?s' a b = (if in_grid s a b \<and> (a, b) \<in> {(x, y)} then Inr v else get_tile_at s a b)" for a b
  proof (cases "in_grid s a b")
    case False
    then show ?thesis using ig by (simp add: get_tile_at_outside)
  next
    case True
    have lhs: "get_tile_at ?s' a b = Inr (tilemap ?s' ! nat a ! nat b)"
      using ok True ig get_tile_at_in_grid by blast
    have rhs: "get_tile_at s a b = Inr (tilemap s ! nat a ! nat b)"
      using assms(1) True get_tile_at_in_grid by blast
    show ?thesis
      using True assms lhs rhs
      by (auto simp: in_grid_def grid_ok_def nth_list_update)
  qed
  then have "painted s {(x, y)} v ?s'" using ok by (auto simp: painted_def)
  then show ?thesis using tilemap_set_in_grid[OF assms] by simp
qed

lemma painted_frame:
  "painted s C v s' \<Longrightarrow> \<exists>tm. s' = s\<lparr>tilemap := tm\<rparr>"
  by (simp add: painted_def)

lemma painted_dims:
  "painted s C v s' \<Longrightarrow> width s' = width s \<and> height s' = height s \<and> grid_ok s'"
  by (auto simp: painted_def)

lemma painted_in_grid: "painted s C v s' \<Longrightarrow> in_grid s' x y = in_grid s x y"
  by (auto simp: painted_def in_grid_def)

lemma painted_none: "grid_ok s \<Longrightarrow> painted s {} v s"
proof -
  have "s = s\<lparr>tilemap := tilemap s\<rparr>" by simp
  then have "\<exists>tm. s = s\<lparr>tilemap := tm\<rparr>" by (rule exI)
  moreover assume "grid_ok s"
  ultimately show ?thesis by (simp add: painted_def)
qed

lemma painted_trans:
  assumes "painted s C v s1" "painted s1 D v s2"
  shows "painted s (C \<union> D) v s2"
proof -
  obtain tm1 where s1: "s1 = s\<lparr>tilemap := tm1\<rparr>" using assms(1) painted_frame by blast
  obtain tm2 where s2: "s2 = s1\<lparr>tilemap := tm2\<rparr>" using assms(2) painted_frame by blast
  have fr: "s2 = s\<lparr>tilemap := tm2\<rparr>" using s1 s2 by simp
  have ig: "\<And>x y. in_grid s1 x y = in_grid s x y" using assms(1) by (rule painted_in_grid)
  have "get_tile_at s2 x y = (if in_grid s x y \<and> (x, y) \<in> C \<union> D then Inr v else get_tile_at s x y)" for x y
    using assms ig by (auto simp: painted_def)
  then show ?thesis using fr assms(2) by (auto simp: painted_def)
qed

lemma painted_cong:
  assumes "painted s C v s'" "\<And>x y. in_grid s x y \<Longrightarrow> ((x, y) \<in> C) = ((x, y) \<in> D)"
  shows "painted s D v s'"
  using assms by (auto simp: painted_def)

lemma guarded_set_painted:
  assumes "grid_ok s"
  shows "\<exists>s'. (if 0 \<le> x \<and> x < width s \<and> 0 \<le> y \<and> y < height s then tilemap_set s x y v else Inr s) = Inr s'
              \<and> painted s {(x, y)} v s'"
proof (cases "in_grid s x y")
  case True
  then show ?thesis using tilemap_set_painted[OF assms True, of v] by (simp add: in_grid_def)
next
  case False
  have "painted s {} v s" using assms by (rule painted_none)
  then have "painted s {(x, y)} v s" using False by (auto intro: painted_cong)
  then show ?thesis using False by (auto simp: in_grid_def)
qed

lemma for_each_painted:
  assumes "grid_ok s"
    and "\<And>x s1. x \<in> set xs \<Longrightarrow> grid_ok s1 \<Longrightarrow> width s1 = width s \<Longrightarrow> height s1 = height s
            \<Longrightarrow> \<exists>s2. body x s1 = Inr s2 \<and> painted s1 (F x) v s2"
  shows "\<exists>s'. for_each xs body s = Inr s' \<and> painted s (\<Union>x \<in> set xs. F x) v s'"
  using assms
proof (induction xs arbitrary: s)
  case Nil
  then show ?case by (simp add: painted_none)
next
  case (Cons a xs)
  obtain s1 where b: "body a s = Inr s1" and p1: "painted s (F a) v s1"
    using Cons.prems(2)[of a s] Cons.prems(1) by auto
  have d1: "width s1 = width s" "height s1 = height s" "grid_ok s1"
    using painted_dims[OF p1] by auto
  have "\<exists>s'. for_each xs body s1 = Inr s' \<and> painted s1 (\<Union>x \<in> set xs. F x) v s'"
  proof (rule Cons.IH[OF d1(3)])
    fix x s2
    assume "x \<in> set xs" "grid_ok s2" "width s2 = width s1" "height s2 = height s1"
    then show "\<exists>s3. body x s2 = Inr s3 \<and> painted s2 (F x) v s3"
      using Cons.prems(2)[of x s2] d1 by simp
  qed
  then obtain s' where r: "for_each xs body s1 = Inr s'" and p2: "painted s1 (\<Union>x \<in> set xs. F x) v s'"
    by blast
  have "painted s (F a \<union> (\<Union>x \<in> set xs. F x)) v s'" using p1 p2 by (rule painted_trans)
  then show ?case using b r by simp
qed

lemma set_py_range: "set (py_range a b) = {x. a \<le> x \<and> x < b}"
  by (auto simp: py_range_def)

lemma create_room_painted:
  assumes "grid_ok s"
  shows "\<exists>s'. create_room s room = Inr s' \<and>
           painted s {(x, y). left room \<le> x \<and> x < right room \<and> top room \<le> y \<and> y < bottom room} 1 s'"
proof -
  let ?xs = "py_range (left room) (right room)"
  let ?ys = "py_range (top room) (bottom room)"
  let ?inner = "\<lambda>x y s. if 0 \<le> x \<and> x < width s \<and> 0 \<le> y \<and> y < height s
                         then tilemap_set s x y 1 else Inr s"
  have inner: "\<exists>s2. for_each ?ys (?inner x) s1 = Inr s2 \<and> painted s1 (\<Union>y \<in> set ?ys. {(x, y)}) 1 s2"
    if "grid_ok s1" for x s1
    using that
  proof (rule for_each_painted)
    fix y s2 assume "grid_ok s2"
    then show "\<exists>s3. ?inner x y s2 = Inr s3 \<and> painted s2 {(x, y)} 1 s3"
      by (rule guarded_set_painted)
  qed
  have "\<exists>s'. for_each ?xs (\<lambda>x s. for_each ?ys (?inner x) s) s = Inr s'
           \<and> painted s (\<Union>x \<in> set ?xs. \<Union>y \<in> set ?ys. {(x, y)}) 1 s'"
    using assms
  proof (rule for_each_painted)
    fix x s1 assume "grid_ok s1"
    then show "\<exists>s2. for_each ?ys (?inner x) s1 = Inr s2 \<and> painted s1 (\<Union>y \<in> set ?ys. {(x, y)}) 1 s2"
      by (rule inner)
  qed
  moreover have "(\<Union>x \<in> set ?xs. \<Union>y \<in> set ?ys. {(x, y)})
       = {(x, y). left room \<le> x \<and> x < right room \<and> top room \<le> y \<and> y < bottom room}"
    by (auto simp: set_py_range)
  ultimately show ?thesis by (simp add: create_room_def)
qed

lemma clear_tilemap_painted:
  assumes "grid_ok s"
  shows "\<exists>s'. clear_tilemap s = Inr s' \<and> painted s UNIV 0 s'"
proof -
  let ?xs = "py_range 0 (width s)"
  have inner: "\<exists>s2. for_each (py_range 0 (height s1)) (\<lambda>y s. tilemap_set s x y 0) s1 = Inr s2
                  \<and> painted s1 (\<Union>y \<in> set (py_range 0 (height s1)). {(x, y)}) 0 s2"
    if "grid_ok s1" "0 \<le> x" "x < width s1" for x s1
    using that(1)
  proof (rule for_each_painted)
    fix y s2 assume "y \<in> set (py_range 0 (height s1))" "grid_ok s2" "width s2 = width s1" "height s2 = height s1"
    then have "in_grid s2 x y" using that by (simp add: in_grid_def set_py_range)
    then show "\<exists>s3. tilemap_set s2 x y 0 = Inr s3 \<and> painted s2 {(x, y)} 0 s3"
      using \<open>grid_ok s2\<close> tilemap_set_painted by blast
  qed
  have "\<exists>s'. for_each ?xs (\<lambda>x s. for_each (py_range 0 (height s)) (\<lambda>y s. tilemap_set s x y 0) s) s = Inr s'
           \<and> painted s (\<Union>x \<in> set ?xs. \<Union>y \<in> set (py_range 0 (height s)). {(x, y)}) 0 s'"
    using assms
  proof (rule for_each_painted)
    fix x s1 assume "x \<in> set ?xs" "grid_ok s1" "width s1 = width s" "height s1 = height s"
    then show "\<exists>s2. for_each (py_range 0 (height s1)) (\<lambda>y s. tilemap_set s x y 0) s1 = Inr s2
                  \<and> painted s1 (\<Union>y \<in> set (py_range 0 (height s)). {(x, y)}) 0 s2"
      using inner[of s1 x] by (simp add: set_py_range)
  qed
  then obtain s' where r: "clear_tilemap s = Inr s'"
    and p: "painted s (\<Union>x \<in> set ?xs. \<Union>y \<in> set (py_range 0 (height s)). {(x, y)}) 0 s'"
    by (auto simp: clear_tilemap_def)
  have "painted s UNIV 0 s'" using p by (rule painted_cong) (auto simp: set_py_range in_grid_def)
  then show ?thesis using r by simp
qed

section \<open>The corridor loops\<close>

lemma for_each_append:
  "for_each (xs @ ys) body s = (case for_each xs body s of Inl e \<Rightarrow> Inl e | Inr s' \<Rightarrow> for_each ys body s')"
  by (induction xs arbitrary: s) (auto split: sum.splits)

lemma corridor_h_forward:
  "x \<le> x2 \<Longrightarrow> corridor_h s x x2 y1 1 = Some (for_each (map (\<lambda>x. (x, y1)) [x..x2 - 1]) carve_cell s)"
proof (induction "nat (x2 - x)" arbitrary: x s)
  case 0
  then have "x = x2" by simp
  then show ?case by (subst corridor_h.simps) simp
next
  case (Suc n)
  then have lt: "x < x2" and n: "n = nat (x2 - (x + 1))" by auto
  have cells: "[x..x2 - 1] = x # [x + 1..x2 - 1]" using lt by (simp add: upto_rec1)
  show ?case
  proof (cases "carve_cell (x, y1) s")
    case (Inl e)
    then show ?thesis using lt cells
      by (subst corridor_h.simps) (simp add: carve_cell_def)
  next
    case (Inr s')
    have "corridor_h s' (x + 1) x2 y1 1 = Some (for_each (map (\<lambda>x. (x, y1)) [x + 1..x2 - 1]) carve_cell s')"
      using Suc.hyps(1)[OF n] lt by simp
    then show ?thesis using lt cells Inr
      by (subst corridor_h.simps) (simp add: carve_cell_def)
  qed
qed

lemma corridor_h_backward:
  "x2 \<le> x \<Longrightarrow> corridor_h s x x2 y1 (- 1) = Some (for_each (map (\<lambda>x. (x, y1)) (rev [x2 + 1..x])) carve_cell s)"
proof (induction "nat (x - x2)" arbitrary: x s)
  case 0
  then have "x = x2" by simp
  then show ?case by (subst corridor_h.simps) simp
next
  case (Suc n)
  then have lt: "x2 < x" and n: "n = nat (x - 1 - x2)" by auto
  have cells: "rev [x2 + 1..x] = x # rev [x2 + 1..x - 1]" using lt by (simp add: upto_rec2)
  show ?case
  proof (cases "carve_cell (x, y1) s")
    case (Inl e)
    then show ?thesis using lt cells
      by (subst corridor_h.simps) (simp add: carve_cell_def)
  next
    case (Inr s')
    have "corridor_h s' (x - 1) x2 y1 (- 1) = Some (for_each (map (\<lambda>x. (x, y1)) (rev [x2 + 1..x - 1])) carve_cell s')"
      using Suc.hyps(1)[OF n] lt by simp
    then show ?thesis using lt cells Inr
      by (subst corridor_h.simps) (simp add: carve_cell_def)
  qed
qed

lemma corridor_v_forward:
  "y \<le> y2 \<Longrightarrow> corridor_v s y y2 x2 1 = Some (for_each (map (\<lambda>y. (x2, y)) [y..y2 - 1]) carve_cell s)"
proof (induction "nat (y2 - y)" arbitrary: y s)
  case 0
  then have "y = y2" by simp
  then show ?case by (subst corridor_v.simps) simp
next
  case (Suc n)
  then have lt: "y < y2" and n: "n = nat (y2 - (y + 1))" by auto
  have cells: "[y..y2 - 1] = y # [y + 1..y2 - 1]" using lt by (simp add: upto_rec1)
  show ?case
  proof (cases "carve_cell (x2, y) s")
    case (Inl e)
    then show ?thesis using lt cells
      by (subst corridor_v.simps) (simp add: carve_cell_def)
  next
    case (Inr s')
    have "corridor_v s' (y + 1) y2 x2 1 = Some (for_each (map (\<lambda>y. (x2, y)) [y + 1..y2 - 1]) carve_cell s')"
      using Suc.hyps(1)[OF n] lt by simp
    then show ?thesis using lt cells Inr
      by (subst corridor_v.simps) (simp add: carve_cell_def)
  qed
qed

lemma corridor_v_backward:
  "y2 \<le> y \<Longrightarrow> corridor_v s y y2 x2 (- 1) = Some (for_each (map (\<lambda>y. (x2, y)) (rev [y2 + 1..y])) carve_cell s)"
proof (induction "nat (y - y2)" arbitrary: y s)
  case 0
  then have "y = y2" by simp
  then show ?case by (subst corridor_v.simps) simp
next
  case (Suc n)
  then have lt: "y2 < y" and n: "n = nat (y - 1 - y2)" by auto
  have cells: "rev [y2 + 1..y] = y # rev [y2 + 1..y - 1]" using lt by (simp add: upto_rec2)
  show ?case
  proof (cases "carve_cell (x2, y) s")
    case (Inl e)
    then show ?thesis using lt cells
      by (subst corridor_v.simps) (simp add: carve_cell_def)
  next
    case (Inr s')
    have "corridor_v s' (y - 1) y2 x2 (- 1) = Some (for_each (map (\<lambda>y. (x2, y)) (rev [y2 + 1..y - 1])) carve_cell s')"
      using Suc.hyps(1)[OF n] lt by simp
    then show ?thesis using lt cells Inr
      by (subst corridor_v.simps) (simp add: carve_cell_def)
  qed
qed

lemma corridor_h_toward:
  "corridor_h s x1 x2 y1 (if x1 < x2 then 1 else - 1) = Some (for_each (map (\<lambda>x. (x, y1)) (toward x1 x2)) carve_cell s)"
  by (simp add: toward_def corridor_h_forward corridor_h_backward)

lemma corridor_v_toward:
  "corridor_v s y1 y2 x2 (if y1 < y2 then 1 else - 1) = Some (for_each (map (\<lambda>y. (x2, y)) (toward y1 y2)) carve_cell s)"
  by (simp add: toward_def corridor_v_forward corridor_v_backward)

lemma create_corridor_refines:
  "create_corridor s start end' = Some (corridor_spec s start end')"
proof -
  obtain x1 y1 x2 y2 where se: "start = (x1, y1)" "end' = (x2, y2)" by (cases start, cases end') auto
  let ?h = "for_each (map (\<lambda>x. (x, y1)) (toward x1 x2)) carve_cell s"
  have spec: "corridor_spec s start end' =
      (case ?h of Inl e \<Rightarrow> Inl e | Inr s1 \<Rightarrow> for_each (map (\<lambda>y. (x2, y)) (toward y1 y2)) carve_cell s1)"
    by (simp add: corridor_spec_def corridor_cells_def se for_each_append)
  have code: "create_corridor s start end' =
      (case corridor_h s x1 x2 y1 (if x1 < x2 then 1 else - 1) of
         None \<Rightarrow> None
       | Some (Inl e) \<Rightarrow> Some (Inl e)
       | Some (Inr s1) \<Rightarrow> corridor_v s1 y1 y2 x2 (if y1 < y2 then 1 else - 1))"
    unfolding create_corridor_def se Let_def by simp
  show ?thesis
  proof (cases ?h)
    case (Inl e)
    then show ?thesis unfolding code spec corridor_h_toward by simp
  next
    case (Inr s1)
    then show ?thesis unfolding code spec corridor_h_toward corridor_v_toward by simp
  qed
qed

section \<open>One iteration of the room loop\<close>

lemma carve_cell_painted:
  assumes "grid_ok s"
  shows "\<exists>s'. carve_cell c s = Inr s' \<and> painted s {c} 1 s'"
proof (cases c)
  case (Pair a b)
  show ?thesis using guarded_set_painted[OF assms, of a b 1] by (simp add: carve_cell_def Pair)
qed

lemma corridor_spec_painted:
  assumes "grid_ok s"
  shows "\<exists>s'. corridor_spec s start end' = Inr s' \<and> painted s (set (corridor_cells start end')) 1 s'"
proof -
  have "\<exists>s'. for_each (corridor_cells start end') carve_cell s = Inr s'
           \<and> painted s (\<Union>c \<in> set (corridor_cells start end'). {c}) 1 s'"
    using assms
  proof (rule for_each_painted)
    fix c s1 assume "grid_ok s1"
    then show "\<exists>s2. carve_cell c s1 = Inr s2 \<and> painted s1 {c} 1 s2" by (rule carve_cell_painted)
  qed
  then show ?thesis by (simp add: corridor_spec_def)
qed

lemma create_corridor_painted:
  "grid_ok s \<Longrightarrow> \<exists>s'. create_corridor s start end' = Some (Inr s')
                     \<and> painted s (set (corridor_cells start end')) 1 s'"
  using corridor_spec_painted[of s start end'] by (simp add: create_corridor_refines)

lemma randint_range:
  "randint rng k a b = Inr v \<Longrightarrow> a \<le> v \<and> v \<le> b"
proof -
  assume r: "randint rng k a b = Inr v"
  then have ab: "a \<le> b" and v: "v = a + rng k mod (b - a + 1)"
    by (auto simp: randint_def split: if_splits)
  have pos: "0 < b - a + 1" using ab by simp
  have "0 \<le> rng k mod (b - a + 1)" "rng k mod (b - a + 1) < b - a + 1"
    using pos by (rule pos_mod_sign, rule pos_mod_bound)
  then show ?thesis using v by simp
qed

lemma randint_error: "randint rng k a b = Inl e \<Longrightarrow> e = ValueError \<and> b < a"
  by (auto simp: randint_def split: if_splits)

lemma draw_room_ok:
  assumes "draw_room s rng k = Inr r"
  shows "room_in_border s r"
    and "room_min_size s \<le> rect_w r" "rect_w r \<le> room_max_size s"
    and "room_min_size s \<le> rect_h r" "rect_h r \<le> room_max_size s"
proof -
  obtain w h x y where
    w: "randint rng k (room_min_size s) (room_max_size s) = Inr w" and
    h: "randint rng (k + 1) (room_min_size s) (room_max_size s) = Inr h" and
    x: "randint rng (k + 2) 1 (width s - w - 1) = Inr x" and
    y: "randint rng (k + 3) 1 (height s - h - 1) = Inr y" and
    r: "r = Rect x y w h"
    using assms by (auto simp: draw_room_def split: sum.splits)
  note b = randint_range[OF w] randint_range[OF h] randint_range[OF x] randint_range[OF y]
  show "room_in_border s r" using b by (simp add: r Rect_def room_in_border_def)
  show "room_min_size s \<le> rect_w r" "rect_w r \<le> room_max_size s"
    "room_min_size s \<le> rect_h r" "rect_h r \<le> room_max_size s"
    using b by (simp_all add: r Rect_def)
qed

lemma draw_room_fits:
  assumes "draw_room s rng k = Inr r" "0 \<le> room_min_size s" "width s < 2 ^ 31" "height s < 2 ^ 31"
  shows "rect_fits r"
proof -
  note b = draw_room_ok[OF assms(1)]
  have "1 \<le> rect_x r" "1 \<le> rect_y r" "rect_x r + rect_w r \<le> width s - 1"
    "rect_y r + rect_h r \<le> height s - 1"
    using b(1) by (simp_all add: room_in_border_def)
  moreover have "0 \<le> rect_w r" "0 \<le> rect_h r" using b(2,4) assms(2) by linarith+
  ultimately show ?thesis using assms(3,4)
    by (simp add: rect_fits_def c_int_def right_def bottom_def)
qed

lemma draw_room_error: "draw_room s rng k = Inl e \<Longrightarrow> e = ValueError"
  by (auto simp: draw_room_def split: sum.splits dest: randint_error)

lemma draw_room_error_cause:
  assumes "draw_room s rng k = Inl e"
  shows "room_max_size s < room_min_size s \<or> width s - room_max_size s - 1 < 1
           \<or> height s - room_max_size s - 1 < 1"
proof -
  consider
    (w) "randint rng k (room_min_size s) (room_max_size s) = Inl e"
  | (h) "randint rng (k + 1) (room_min_size s) (room_max_size s) = Inl e"
  | (x) w where "randint rng k (room_min_size s) (room_max_size s) = Inr w"
      "randint rng (k + 2) 1 (width s - w - 1) = Inl e"
  | (y) h where "randint rng (k + 1) (room_min_size s) (room_max_size s) = Inr h"
      "randint rng (k + 3) 1 (height s - h - 1) = Inl e"
    using assms by (auto simp: draw_room_def split: sum.splits)
  then show ?thesis
  proof cases
    case w then show ?thesis using randint_error by blast
  next
    case h then show ?thesis using randint_error by blast
  next
    case (x w)
    then show ?thesis using randint_range[OF x(1)] randint_error[OF x(2)] by auto
  next
    case (y h)
    then show ?thesis using randint_range[OF y(1)] randint_error[OF y(2)] by auto
  qed
qed

lemma draw_room_total:
  assumes "room_min_size s \<le> room_max_size s"
    and "1 \<le> width s - room_max_size s - 1" "1 \<le> height s - room_max_size s - 1"
  shows "\<exists>r. draw_room s rng k = Inr r"
proof (cases "draw_room s rng k")
  case (Inl e)
  then show ?thesis using draw_room_error_cause[OF Inl] assms by linarith
next
  case (Inr r)
  then show ?thesis by simp
qed

lemma draw_room_frame:
  "width s' = width s \<Longrightarrow> height s' = height s \<Longrightarrow> room_min_size s' = room_min_size s
     \<Longrightarrow> room_max_size s' = room_max_size s \<Longrightarrow> draw_room s' rng k = draw_room s rng k"
  by (simp add: draw_room_def cong: sum.case_cong)

lemma painted_rooms:
  assumes "painted a C v b"
  shows "painted (a\<lparr>rooms := R\<rparr>) C v (b\<lparr>rooms := R\<rparr>)"
proof -
  obtain tm where b: "b = a\<lparr>tilemap := tm\<rparr>" using assms painted_frame by blast
  have g: "\<And>s x y. get_tile_at (s\<lparr>rooms := R\<rparr>) x y = get_tile_at s x y"
    by (simp add: get_tile_at_def tilemap_get_def)
  have "b\<lparr>rooms := R\<rparr> = a\<lparr>rooms := R\<rparr>\<lparr>tilemap := tm\<rparr>" using b by simp
  then have "\<exists>tm. b\<lparr>rooms := R\<rparr> = a\<lparr>rooms := R\<rparr>\<lparr>tilemap := tm\<rparr>" by (rule exI)
  moreover have "grid_ok (b\<lparr>rooms := R\<rparr>)" using assms by (simp add: painted_def grid_ok_def)
  moreover have "\<And>x y. in_grid (a\<lparr>rooms := R\<rparr>) x y = in_grid a x y" by (simp add: in_grid_def)
  ultimately show ?thesis using assms g unfolding painted_def by simp
qed

lemma generate_room_fail:
  "draw_room s rng k = Inl e \<Longrightarrow> generate_room rng k i s = Some (Inl (e, s))"
  by (simp add: generate_room_def)

lemma generate_room_ok:
  assumes "grid_ok s" "length (rooms s) = nat i" "0 \<le> i" "draw_room s rng k = Inr room"
  shows "\<exists>s'. generate_room rng k i s = Some (Inr s') \<and>
           painted (s\<lparr>rooms := rooms s @ [room]\<rparr>) (carving (rooms s @ [room]) (nat i)) 1 s'"
proof -
  let ?R = "rooms s @ [room]"
  let ?s0 = "s\<lparr>rooms := ?R\<rparr>"
  have ok0: "grid_ok ?s0" using assms(1) by (simp add: grid_ok_def)
  obtain s2 where cr: "create_room ?s0 room = Inr s2" and p2: "painted ?s0 (room_cells room) 1 s2"
    using create_room_painted[OF ok0, of room] by (auto simp: room_cells_def)
  have ok2: "grid_ok s2" using painted_dims[OF p2] by simp
  have r2: "rooms s2 = ?R" using painted_frame[OF p2] by auto
  have here: "?R ! nat i = room" using assms(2) by (metis nth_append_length)
  show ?thesis
  proof (cases "0 < i")
    case False
    then have "carving ?R (nat i) = room_cells room" using here by (simp add: carving_def)
    then show ?thesis using False cr p2 assms(4) by (simp add: generate_room_def)
  next
    case True
    have idx: "0 \<le> i - 1" "i - 1 < int (length (rooms s2))" using True r2 assms(2) by auto
    have "nat (i - 1) = nat i - 1" using True by linarith
    then have prev: "py_getitem (rooms s2) (i - 1) = Inr (?R ! (nat i - 1))"
      using py_getitem_in_range[OF idx] r2 by simp
    obtain s3 where cc: "create_corridor s2 (center (?R ! (nat i - 1))) (center room) = Some (Inr s3)"
      and p3: "painted s2 (set (corridor_cells (center (?R ! (nat i - 1))) (center room))) 1 s3"
      using create_corridor_painted[OF ok2] by blast
    have "painted ?s0 (room_cells room \<union> set (corridor_cells (center (?R ! (nat i - 1))) (center room))) 1 s3"
      using p2 p3 by (rule painted_trans)
    moreover have "carving ?R (nat i)
        = room_cells room \<union> set (corridor_cells (center (?R ! (nat i - 1))) (center room))"
      using True here by (simp add: carving_def)
    ultimately show ?thesis using True cr prev cc assms(4) by (simp add: generate_room_def)
  qed
qed

lemma carving_append:
  assumes "j < length rs"
  shows "carving (rs @ ys) j = carving rs j"
proof -
  have "j - 1 < length rs" using assms by simp
  then show ?thesis using assms by (simp add: carving_def nth_append)
qed

lemma py_range_step: "i < n \<Longrightarrow> py_range i n = i # py_range (i + 1) n"
  by (simp add: py_range_def upto_rec1)

lemma py_range_empty: "n \<le> i \<Longrightarrow> py_range i n = []"
  by (simp add: py_range_def)

lemma generate_rooms_outcome:
  assumes "grid_ok s" "length (rooms s) = nat i" "0 \<le> i"
  shows "\<exists>rs s'.
           length rs \<le> nat (n - i) \<and>
           (\<forall>j < length rs. draw_room s rng (k + 4 * j) = Inr (rs ! j)) \<and>
           painted (s\<lparr>rooms := rooms s @ rs\<rparr>)
             (\<Union>j \<in> {nat i ..< nat i + length rs}. carving (rooms s @ rs) j) 1 s' \<and>
           (if length rs = nat (n - i)
            then generate_rooms rng k (py_range i n) s = Some (Inr s')
            else generate_rooms rng k (py_range i n) s = Some (Inl (ValueError, s'))
                 \<and> draw_room s rng (k + 4 * length rs) = Inl ValueError)"
  using assms
proof (induction "nat (n - i)" arbitrary: i k s)
  case 0
  then have e: "py_range i n = []" by (simp add: py_range_empty)
  have "painted s {} 1 s" using "0.prems"(1) by (rule painted_none)
  then have "painted (s\<lparr>rooms := rooms s @ []\<rparr>)
       (\<Union>j \<in> {nat i ..< nat i + length ([]::rect list)}. carving (rooms s @ []) j) 1 s"
    by simp
  then show ?case using 0 e
    by (intro exI[of _ "[]"] exI[of _ s]) simp
next
  case (Suc m)
  then have lt: "i < n" and m: "m = nat (n - (i + 1))" by auto
  have rng: "py_range i n = i # py_range (i + 1) n" using lt by (rule py_range_step)
  show ?case
  proof (cases "draw_room s rng k")
    case (Inl e)
    have e: "e = ValueError" using Inl by (rule draw_room_error)
    have "painted s {} 1 s" using Suc.prems(1) by (rule painted_none)
    then have p: "painted (s\<lparr>rooms := rooms s @ []\<rparr>)
       (\<Union>j \<in> {nat i ..< nat i + length ([]::rect list)}. carving (rooms s @ []) j) 1 s"
      by simp
    have "generate_rooms rng k (py_range i n) s = Some (Inl (ValueError, s))"
      using generate_room_fail[OF Inl] e rng by simp
    then show ?thesis using p Inl e Suc.hyps(2)
      by (intro exI[of _ "[]"] exI[of _ s]) simp
  next
    case (Inr room)
    let ?R1 = "rooms s @ [room]"
    obtain s1 where g1: "generate_room rng k i s = Some (Inr s1)"
      and p1: "painted (s\<lparr>rooms := ?R1\<rparr>) (carving ?R1 (nat i)) 1 s1"
      using generate_room_ok[OF Suc.prems Inr] by blast
    have ok1: "grid_ok s1" using painted_dims[OF p1] by simp
    have r1: "rooms s1 = ?R1" using painted_frame[OF p1] by auto
    have len1: "length (rooms s1) = nat (i + 1)" using r1 Suc.prems(2,3) by (simp add: nat_add_distrib)
    have fr: "width s1 = width s" "height s1 = height s" "room_min_size s1 = room_min_size s"
      "room_max_size s1 = room_max_size s"
      using painted_frame[OF p1] by auto
    obtain rs' s' where
      l: "length rs' \<le> nat (n - (i + 1))" and
      d: "\<forall>j < length rs'. draw_room s1 rng (k + 4 + 4 * j) = Inr (rs' ! j)" and
      p: "painted (s1\<lparr>rooms := rooms s1 @ rs'\<rparr>)
            (\<Union>j \<in> {nat (i + 1) ..< nat (i + 1) + length rs'}. carving (rooms s1 @ rs') j) 1 s'" and
      r: "if length rs' = nat (n - (i + 1))
          then generate_rooms rng (k + 4) (py_range (i + 1) n) s1 = Some (Inr s')
          else generate_rooms rng (k + 4) (py_range (i + 1) n) s1 = Some (Inl (ValueError, s'))
               \<and> draw_room s1 rng (k + 4 + 4 * length rs') = Inl ValueError"
      using Suc.hyps(1)[OF m ok1 len1, of "k + 4"] Suc.prems(3) by auto
    let ?rs = "room # rs'"
    let ?R = "rooms s @ ?rs"
    have R: "rooms s1 @ rs' = ?R" using r1 by simp
    have dr: "\<And>q. draw_room s1 rng q = draw_room s rng q" using fr by (rule draw_room_frame)
    have c1: "length ?rs \<le> nat (n - i)" using l lt by simp
    have c2: "\<forall>j < length ?rs. draw_room s rng (k + 4 * j) = Inr (?rs ! j)"
    proof (intro allI impI)
      fix j assume j: "j < length ?rs"
      show "draw_room s rng (k + 4 * j) = Inr (?rs ! j)"
      proof (cases j)
        case 0
        then show ?thesis using Inr by simp
      next
        case (Suc j')
        then have "draw_room s1 rng (k + 4 + 4 * j') = Inr (rs' ! j')" using d j by simp
        then show ?thesis using Suc dr by (simp add: add.assoc)
      qed
    qed
    have "painted (s\<lparr>rooms := ?R1\<rparr>\<lparr>rooms := ?R\<rparr>) (carving ?R1 (nat i)) 1 (s1\<lparr>rooms := ?R\<rparr>)"
      using p1 by (rule painted_rooms)
    moreover have "carving ?R1 (nat i) = carving ?R (nat i)"
      using carving_append[of "nat i" ?R1 rs'] Suc.prems(2) by simp
    ultimately have pa: "painted (s\<lparr>rooms := ?R\<rparr>) (carving ?R (nat i)) 1 (s1\<lparr>rooms := ?R\<rparr>)"
      by simp
    have pb: "painted (s1\<lparr>rooms := ?R\<rparr>)
            (\<Union>j \<in> {nat (i + 1) ..< nat (i + 1) + length rs'}. carving ?R j) 1 s'"
      using p R by simp
    have "{nat i ..< nat i + length ?rs} = insert (nat i) {nat (i + 1) ..< nat (i + 1) + length rs'}"
      using Suc.prems(3) by (auto simp: nat_add_distrib)
    then have c3: "painted (s\<lparr>rooms := ?R\<rparr>) (\<Union>j \<in> {nat i ..< nat i + length ?rs}. carving ?R j) 1 s'"
      using painted_trans[OF pa pb] by simp
    have step: "generate_rooms rng k (py_range i n) s = generate_rooms rng (k + 4) (py_range (i + 1) n) s1"
      using rng g1 by simp
    have nn: "nat (n - i) = Suc (nat (n - (i + 1)))" using lt by simp
    have c4: "if length ?rs = nat (n - i)
            then generate_rooms rng k (py_range i n) s = Some (Inr s')
            else generate_rooms rng k (py_range i n) s = Some (Inl (ValueError, s'))
                 \<and> draw_room s rng (k + 4 * length ?rs) = Inl ValueError"
      using r step nn dr by (auto simp: add.assoc split: if_splits)
    show ?thesis using c1 c2 c3 c4 by blast
  qed
qed

section \<open>The whole of generate\<close>

lemma generate_outcome:
  assumes "grid_ok s"
  shows "\<exists>rs s'.
           length rs \<le> nat (room_count s) \<and>
           (\<forall>j < length rs. draw_room s rng (4 * j) = Inr (rs ! j)) \<and>
           generated s rs s' \<and>
           (if length rs = nat (room_count s)
            then generate s rng = Some (Inr s')
            else generate s rng = Some (Inl (ValueError, s'))
                 \<and> draw_room s rng (4 * length rs) = Inl ValueError)"
proof -
  let ?s0 = "s\<lparr>rooms := []\<rparr>"
  have ok0: "grid_ok ?s0" using assms by (simp add: grid_ok_def)
  obtain s1 where cl: "clear_tilemap ?s0 = Inr s1" and p1: "painted ?s0 UNIV 0 s1"
    using clear_tilemap_painted[OF ok0] by blast
  obtain tm1 where s1: "s1 = ?s0\<lparr>tilemap := tm1\<rparr>" using painted_frame[OF p1] by blast
  have ok1: "grid_ok s1" using painted_dims[OF p1] by simp
  have len1: "length (rooms s1) = nat 0" using s1 by simp
  have dr: "\<And>q. draw_room s1 rng q = draw_room s rng q"
    by (rule draw_room_frame) (simp_all add: s1)
  obtain rs s' where
    l: "length rs \<le> nat (room_count s1 - 0)" and
    d: "\<forall>j < length rs. draw_room s1 rng (0 + 4 * j) = Inr (rs ! j)" and
    p: "painted (s1\<lparr>rooms := rooms s1 @ rs\<rparr>)
          (\<Union>j \<in> {nat 0 ..< nat 0 + length rs}. carving (rooms s1 @ rs) j) 1 s'" and
    r: "if length rs = nat (room_count s1 - 0)
        then generate_rooms rng 0 (py_range 0 (room_count s1)) s1 = Some (Inr s')
        else generate_rooms rng 0 (py_range 0 (room_count s1)) s1 = Some (Inl (ValueError, s'))
             \<and> draw_room s1 rng (0 + 4 * length rs) = Inl ValueError"
    using generate_rooms_outcome[OF ok1 len1, of "room_count s1" rng 0] by auto
  have rc: "room_count s1 = room_count s" using s1 by simp
  have r1: "rooms s1 = []" using s1 by simp
  let ?C = "\<Union>j \<in> {0 ..< length rs}. carving rs j"
  have p': "painted (s1\<lparr>rooms := rs\<rparr>) ?C 1 s'" using p r1 by simp
  obtain tm where s': "s' = s1\<lparr>rooms := rs\<rparr>\<lparr>tilemap := tm\<rparr>" using painted_frame[OF p'] by blast
  have fr: "s' = s\<lparr>rooms := rs, tilemap := tm\<rparr>" using s' s1 by simp
  have ig: "\<And>x y. in_grid (s1\<lparr>rooms := rs\<rparr>) x y = in_grid s x y" by (simp add: s1 in_grid_def)
  have g1: "get_tile_at (s1\<lparr>rooms := rs\<rparr>) x y = Inr 0" for x y
  proof -
    have "get_tile_at (s1\<lparr>rooms := rs\<rparr>) x y = get_tile_at s1 x y"
      by (simp add: get_tile_at_def tilemap_get_def)
    also have "\<dots> = (if in_grid ?s0 x y \<and> (x, y) \<in> UNIV then Inr 0 else get_tile_at ?s0 x y)"
      using p1 by (simp add: painted_def)
    also have "\<dots> = Inr 0" by (simp add: get_tile_at_outside)
    finally show ?thesis .
  qed
  have g: "get_tile_at s' x y = Inr (if in_grid s x y \<and> (\<exists>j < length rs. (x, y) \<in> carving rs j) then 1 else 0)"
    for x y
  proof -
    have "get_tile_at s' x y = (if in_grid (s1\<lparr>rooms := rs\<rparr>) x y \<and> (x, y) \<in> ?C then Inr 1
                                else get_tile_at (s1\<lparr>rooms := rs\<rparr>) x y)"
      using p' by (simp add: painted_def)
    then show ?thesis using g1 ig by auto
  qed
  have gen: "generated s rs s'"
    using fr painted_dims[OF p'] g unfolding generated_def by blast
  have run: "generate s rng = generate_rooms rng 0 (py_range 0 (room_count s1)) s1"
    using cl by (simp add: generate_def)
  have c4: "if length rs = nat (room_count s)
            then generate s rng = Some (Inr s')
            else generate s rng = Some (Inl (ValueError, s'))
                 \<and> draw_room s rng (4 * length rs) = Inl ValueError"
    using r run rc dr by (auto split: if_splits)
  have c1: "length rs \<le> nat (room_count s)" using l rc by simp
  have c2: "\<forall>j < length rs. draw_room s rng (4 * j) = Inr (rs ! j)" using d dr by simp
  show ?thesis using c1 c2 gen c4 by blast
qed

lemma generate_success:
  assumes "grid_ok s" "generate s rng = Some (Inr s')"
  shows "\<exists>rs. length rs = nat (room_count s) \<and>
           (\<forall>j < length rs. draw_room s rng (4 * j) = Inr (rs ! j)) \<and> generated s rs s'"
proof -
  obtain rs t where
    d: "\<forall>j < length rs. draw_room s rng (4 * j) = Inr (rs ! j)" and g: "generated s rs t" and
    r: "if length rs = nat (room_count s)
        then generate s rng = Some (Inr t)
        else generate s rng = Some (Inl (ValueError, t))
             \<and> draw_room s rng (4 * length rs) = Inl ValueError"
    using generate_outcome[OF assms(1), of rng] by blast
  have "length rs = nat (room_count s) \<and> t = s'" using r assms(2) by (auto split: if_splits)
  then show ?thesis using d g by blast
qed

lemma generate_failure:
  assumes "grid_ok s" "generate s rng = Some (Inl (e, s'))"
  shows "e = ValueError \<and>
         (\<exists>rs. length rs < nat (room_count s) \<and>
           (\<forall>j < length rs. draw_room s rng (4 * j) = Inr (rs ! j)) \<and> generated s rs s' \<and>
           draw_room s rng (4 * length rs) = Inl ValueError)"
proof -
  obtain rs t where
    l: "length rs \<le> nat (room_count s)" and
    d: "\<forall>j < length rs. draw_room s rng (4 * j) = Inr (rs ! j)" and g: "generated s rs t" and
    r: "if length rs = nat (room_count s)
        then generate s rng = Some (Inr t)
        else generate s rng = Some (Inl (ValueError, t))
             \<and> draw_room s rng (4 * length rs) = Inl ValueError"
    using generate_outcome[OF assms(1), of rng] by blast
  have f: "length rs \<noteq> nat (room_count s)" "t = s'" "e = ValueError"
      "draw_room s rng (4 * length rs) = Inl ValueError"
    using r assms(2) by (auto split: if_splits)
  have "length rs < nat (room_count s)" using l f(1) by simp
  then show ?thesis using d g f by (intro conjI exI[of _ rs]) auto
qed

lemma generate_returns: "grid_ok s \<Longrightarrow> \<exists>r. generate s rng = Some r"
  using generate_outcome[of s rng] by (auto split: if_splits)

lemma generate_succeeds:
  assumes "grid_ok s" "room_min_size s \<le> room_max_size s"
    and "1 \<le> width s - room_max_size s - 1" "1 \<le> height s - room_max_size s - 1"
  shows "\<exists>s'. generate s rng = Some (Inr s')"
proof -
  obtain rs :: "rect list" and t where
    r: "if length rs = nat (room_count s)
        then generate s rng = Some (Inr t)
        else generate s rng = Some (Inl (ValueError, t))
             \<and> draw_room s rng (4 * length rs) = Inl ValueError"
    using generate_outcome[OF assms(1), of rng] by blast
  obtain room where "draw_room s rng (4 * length rs) = Inr room"
    using draw_room_total[OF assms(2,3,4)] by blast
  then show ?thesis using r by (auto split: if_splits)
qed

lemma cells_ok_from_get_tile_at:
  assumes "grid_ok s" "\<And>x y. \<exists>v. get_tile_at s x y = Inr v \<and> (v = 0 \<or> v = 1)"
  shows "cells_ok s"
  unfolding cells_ok_def
proof (intro ballI)
  fix col c assume col: "col \<in> set (tilemap s)" and c: "c \<in> set col"
  obtain a where a: "a < length (tilemap s)" "col = tilemap s ! a"
    using col by (auto simp: in_set_conv_nth)
  obtain b where b: "b < length col" "c = col ! b" using c by (auto simp: in_set_conv_nth)
  have "length col = nat (height s)" using assms(1) col by (simp add: grid_ok_def)
  then have "b < nat (height s)" "a < nat (width s)" using a b assms(1) by (simp_all add: grid_ok_def)
  then have "int b < height s" "int a < width s" by linarith+
  then have ig: "in_grid s (int a) (int b)" by (simp add: in_grid_def)
  have "get_tile_at s (int a) (int b) = Inr c"
    using get_tile_at_in_grid[OF assms(1) ig] a b by simp
  then show "c = 0 \<or> c = 1" using assms(2)[of "int a" "int b"] by simp
qed

lemma get_tile_at_cells_ok:
  assumes "grid_ok s" "cells_ok s"
  shows "\<exists>v. get_tile_at s x y = Inr v \<and> (v = 0 \<or> v = 1)"
proof (cases "in_grid s x y")
  case False
  then show ?thesis by (simp add: get_tile_at_outside)
next
  case True
  have a: "nat x < length (tilemap s)" using True assms(1) by (simp add: in_grid_def grid_ok_def)
  then have col: "tilemap s ! nat x \<in> set (tilemap s)" by simp
  then have "length (tilemap s ! nat x) = nat (height s)" using assms(1) by (simp add: grid_ok_def)
  then have "tilemap s ! nat x ! nat y \<in> set (tilemap s ! nat x)" using True by (simp add: in_grid_def)
  then have "tilemap s ! nat x ! nat y = 0 \<or> tilemap s ! nat x ! nat y = 1"
    using assms(2) col unfolding cells_ok_def by blast
  then show ?thesis using get_tile_at_in_grid[OF assms(1) True] by simp
qed

lemma painted_cells_ok:
  assumes "painted s C v s'" "grid_ok s" "cells_ok s" "v = 0 \<or> v = 1"
  shows "cells_ok s'"
proof (rule cells_ok_from_get_tile_at)
  show "grid_ok s'" using painted_dims[OF assms(1)] by simp
  fix x y
  have "get_tile_at s' x y = (if in_grid s x y \<and> (x, y) \<in> C then Inr v else get_tile_at s x y)"
    using assms(1) by (simp add: painted_def)
  then show "\<exists>w. get_tile_at s' x y = Inr w \<and> (w = 0 \<or> w = 1)"
    using get_tile_at_cells_ok[OF assms(2,3), of x y] assms(4) by auto
qed

lemma generated_cells_ok: "generated s rs s' \<Longrightarrow> cells_ok s'"
  by (rule cells_ok_from_get_tile_at) (auto simp: generated_def)

section \<open>The example objects\<close>

lemma example_map_grid_ok: "grid_ok example_map"
  by code_simp

lemma example_generate: "generate example_map example_rng = Some (Inr example_generated)"
  by code_simp

section \<open>Corridors lie in the grid\<close>




section \<open>Slicing a sheet\<close>

lemma length_py_range: "length (py_range 0 n) = nat n"
  by (simp add: py_range_def)

lemma nth_py_range: "k < nat n \<Longrightarrow> py_range 0 n ! k = int k"
  by (simp add: py_range_def)

lemma foldl_append_one: "foldl (\<lambda>acc x. acc @ [f x]) acc xs = acc @ map f xs"
  by (induction xs arbitrary: acc) simp_all

lemma foldl_append_rows: "foldl (\<lambda>acc y. acc @ g y) acc ys = acc @ concat (map g ys)"
  by (induction ys arbitrary: acc) simp_all

lemma slice_tiles_rows:
  "slice_tiles p ts w h = concat (map (\<lambda>y. map (\<lambda>x. cut_tile p ts x y) (py_range 0 w)) (py_range 0 h))"
  by (simp add: slice_tiles_def foldl_append_one foldl_append_rows)

lemma length_concat_rows:
  "(\<And>xs. xs \<in> set xss \<Longrightarrow> length xs = n) \<Longrightarrow> length (concat xss) = length xss * n"
  by (induction xss) simp_all

lemma nth_concat_rows:
  "(\<And>xs. xs \<in> set xss \<Longrightarrow> length xs = n) \<Longrightarrow> i < length xss \<Longrightarrow> j < n
     \<Longrightarrow> concat xss ! (i * n + j) = xss ! i ! j"
proof (induction xss arbitrary: i)
  case Nil
  then show ?case by simp
next
  case (Cons xs xss)
  have n: "length xs = n" using Cons.prems(1) by simp
  show ?case
  proof (cases i)
    case 0
    then show ?thesis using n Cons.prems(3) by (simp add: nth_append)
  next
    case (Suc i')
    then have "concat xss ! (i' * n + j) = xss ! i' ! j" using Cons by simp
    moreover have "Suc i' * n + j = length xs + (i' * n + j)" using n by simp
    ultimately show ?thesis using Suc by (simp only: concat.simps nth_append_length_plus nth_Cons_Suc)
  qed
qed

lemma length_slice_tiles: "length (slice_tiles p ts w h) = nat h * nat w"
proof -
  have "length (concat (map (\<lambda>y. map (\<lambda>x. cut_tile p ts x y) (py_range 0 w)) (py_range 0 h)))
          = length (map (\<lambda>y. map (\<lambda>x. cut_tile p ts x y) (py_range 0 w)) (py_range 0 h)) * nat w"
    by (rule length_concat_rows) (auto simp: length_py_range)
  then show ?thesis by (simp add: slice_tiles_rows length_py_range)
qed

lemma nth_slice_tiles:
  assumes "row < nat h" "col < nat w"
  shows "slice_tiles p ts w h ! (row * nat w + col) = cut_tile p ts (int col) (int row)"
proof -
  let ?rows = "map (\<lambda>y. map (\<lambda>x. cut_tile p ts x y) (py_range 0 w)) (py_range 0 h)"
  have "concat ?rows ! (row * nat w + col) = ?rows ! row ! col"
    using assms by (intro nth_concat_rows) (auto simp: length_py_range)
  also have "\<dots> = cut_tile p ts (int col) (int row)"
    using assms by (simp add: length_py_range nth_py_range)
  finally show ?thesis by (simp add: slice_tiles_rows)
qed

section \<open>Loading the sheets\<close>

lemma load_tilesets_sheets:
  assumes "ts \<noteq> 0"
  shows "snd (load_tilesets fs ts ips sel out) =
           (if \<exists>p \<in> set (map snd ips). fs p = Some Undecodable then Inl RuntimeError
            else Inr (sel\<lparr>tileset_images := tileset_images sel
                               @ map (sheet_tiles fs ts) (filter (path_exists fs) (map snd ips)),
                           tileset_names := tileset_names sel
                               @ map basename (filter (path_exists fs) (map snd ips))\<rparr>))"
proof (induction ips arbitrary: sel out)
  case Nil
  then show ?case by simp
next
  case (Cons ip ips)
  obtain i p where ip: "ip = (i, p)" by (cases ip)
  show ?case
  proof (cases "fs p")
    case None
    then have "\<not> path_exists fs p" by (simp add: path_exists_def)
    then show ?thesis using None Cons.IH by (simp add: ip)
  next
    case (Some f)
    then have pe: "path_exists fs p" by (simp add: path_exists_def)
    show ?thesis
    proof (cases f)
      case Undecodable
      then show ?thesis using Some pe by (simp add: ip)
    next
      case (Picture W H)
      then have "sheet_tiles fs ts p = slice_tiles p ts (int W div ts) (int H div ts)"
        using Some by (simp add: sheet_tiles_def)
      then show ?thesis using Picture Some pe assms Cons.IH
        by (simp add: ip Let_def)
    qed
  qed
qed

lemma load_tilesets_warnings:
  "filter is_warning (fst (load_tilesets fs ts ips sel out)) =
     filter is_warning out
       @ map Warning_not_found
           (filter (\<lambda>p. \<not> path_exists fs p)
              (takeWhile (\<lambda>p. fs p \<noteq> Some Undecodable \<and> (ts = 0 \<longrightarrow> fs p = None)) (map snd ips)))"
proof (induction ips arbitrary: sel out)
  case Nil
  then show ?case by simp
next
  case (Cons ip ips)
  obtain i p where ip: "ip = (i, p)" by (cases ip)
  show ?case
  proof (cases "fs p")
    case None
    then have "\<not> path_exists fs p" by (simp add: path_exists_def)
    then show ?thesis using None Cons.IH by (simp add: ip)
  next
    case (Some f)
    then have pe: "path_exists fs p" by (simp add: path_exists_def)
    show ?thesis
    proof (cases f)
      case Undecodable
      then show ?thesis using Some pe by (simp add: ip)
    next
      case (Picture W H)
      then show ?thesis using Some pe Cons.IH
        by (simp add: ip Let_def)
    qed
  qed
qed

lemma snd_zip_indices: "map snd (zip [0..<length ps] ps) = ps"
  by (simp add: map_snd_zip)

lemma TileSelector_init_sheets:
  assumes "ts \<noteq> 0"
  shows "snd (TileSelector_init fs paths ts) =
           (if \<exists>p \<in> set paths. fs p = Some Undecodable then Inl RuntimeError
            else Inr \<lparr>sel_tile_size = ts,
                      tileset_images = map (sheet_tiles fs ts) (filter (path_exists fs) paths),
                      tileset_names = map basename (filter (path_exists fs) paths)\<rparr>)"
  unfolding TileSelector_init_def load_tilesets_sheets[OF assms] snd_zip_indices by simp

lemma TileSelector_init_warnings:
  assumes "ts \<noteq> 0"
  shows "filter is_warning (fst (TileSelector_init fs paths ts)) =
     map Warning_not_found
       (filter (\<lambda>p. \<not> path_exists fs p) (takeWhile (\<lambda>p. fs p \<noteq> Some Undecodable) paths))"
  using assms by (simp add: TileSelector_init_def load_tilesets_warnings snd_zip_indices)

lemma length_sheet_tiles:
  assumes "fs p = Some (Picture W H)" "0 < ts"
  shows "length (sheet_tiles fs ts p) = (W div nat ts) * (H div nat ts)"
proof -
  have w: "nat (int W div ts) = W div nat ts" and h: "nat (int H div ts) = H div nat ts"
    using assms(2) by (simp_all add: nat_div_distrib)
  have st: "sheet_tiles fs ts p = slice_tiles p ts (int W div ts) (int H div ts)"
    using assms(1) by (simp add: sheet_tiles_def)
  show ?thesis by (simp add: st length_slice_tiles w h mult.commute)
qed

lemma nth_sheet_tiles:
  assumes "fs p = Some (Picture W H)" "0 < ts" "row < H div nat ts" "col < W div nat ts"
  shows "sheet_tiles fs ts p ! (row * (W div nat ts) + col) = cut_tile p ts (int col) (int row)"
proof -
  have w: "nat (int W div ts) = W div nat ts" and h: "nat (int H div ts) = H div nat ts"
    using assms(2) by (simp_all add: nat_div_distrib)
  have st: "sheet_tiles fs ts p = slice_tiles p ts (int W div ts) (int H div ts)"
    using assms(1) by (simp add: sheet_tiles_def)
  show ?thesis
    using nth_slice_tiles[of row "int H div ts" col "int W div ts" p ts] w h st assms(3,4) by simp
qed

lemma get_tile_in_range:
  assumes "0 \<le> i" "i < get_tileset_count sel" "0 \<le> j" "j < int (length (tileset_images sel ! nat i))"
  shows "get_tile sel i j = Inr (Some (tileset_images sel ! nat i ! nat j))"
proof -
  have "py_getitem (tileset_images sel) i = Inr (tileset_images sel ! nat i)"
    using assms(1,2) by (simp add: py_getitem_in_range get_tileset_count_def)
  moreover have "py_getitem (tileset_images sel ! nat i) j = Inr (tileset_images sel ! nat i ! nat j)"
    using assms(3,4) by (simp add: py_getitem_in_range)
  ultimately show ?thesis using assms by (simp add: get_tile_def get_tileset_count_def)
qed

lemma get_tile_returns: "\<exists>r. get_tile sel i j = Inr r"
proof (cases "0 \<le> i \<and> i < get_tileset_count sel \<and> 0 \<le> j \<and> j < int (length (tileset_images sel ! nat i))")
  case True
  then show ?thesis using get_tile_in_range by blast
next
  case False
  then show ?thesis
    by (auto simp: get_tile_def get_tileset_count_def py_getitem_in_range)
qed

section \<open>The two passes of draw\<close>

lemma for_each_emits:
  assumes "\<And>x ops. x \<in> set xs \<Longrightarrow> body x ops = Inr (ops @ g x)"
  shows "for_each xs body ops = Inr (ops @ concat (map g xs))"
  using assms by (induction xs arbitrary: ops) simp_all

lemma concat_map_if: "concat (map (\<lambda>y. if P y then [f y] else []) ys) = map f (filter P ys)"
  by (induction ys) simp_all

lemma concat_map_product:
  "concat (map (\<lambda>x. map (\<lambda>y. f (x, y)) (filter (\<lambda>y. P (x, y)) ys)) xs) = map f (filter P (List.product xs ys))"
  by (induction xs) (simp_all add: filter_map comp_def)

lemma draw_floor_cell_in_grid:
  assumes "grid_ok s" "in_grid s x y"
  shows "draw_floor_cell s img cx cy x y ops =
           Inr (ops @ (if get_tile_at s x y = Inr 1
                       then [paint img (200, 200, 200) (tile_size s) (screen_pos s cx cy x y)] else []))"
  using tilemap_get_in_grid[OF assms] get_tile_at_in_grid[OF assms]
  by (simp add: draw_floor_cell_def)

lemma draw_wall_cell_in_grid:
  assumes "grid_ok s" "in_grid s x y"
  shows "draw_wall_cell s img cx cy x y ops =
           Inr (ops @ (if get_tile_at s x y = Inr 0 \<and> in_grid s x (y + 1) \<and> get_tile_at s x (y + 1) = Inr 1
                       then [paint img (80, 60, 40) (tile_size s) (screen_pos s cx cy x y)] else []))"
proof (cases "y < height s - 1")
  case False
  then have "\<not> in_grid s x (y + 1)" by (simp add: in_grid_def)
  then show ?thesis
    using False tilemap_get_in_grid[OF assms] get_tile_at_in_grid[OF assms]
    by (simp add: draw_wall_cell_def)
next
  case True
  then have below: "in_grid s x (y + 1)" using assms(2) by (simp add: in_grid_def)
  show ?thesis
    using True below tilemap_get_in_grid[OF assms] get_tile_at_in_grid[OF assms]
      tilemap_get_in_grid[OF assms(1) below] get_tile_at_in_grid[OF assms(1) below]
    by (simp add: draw_wall_cell_def)
qed

lemma draw_passes:
  assumes "grid_ok s" "tile_size s \<noteq> 0"
    and "get_tile (tile_selector s) (floor_tileset s) (floor_tile s) = Inr floor_image"
    and "get_tile (tile_selector s) (wall_tileset s) (wall_tile s) = Inr wall_image"
  shows "draw s surface_size cx cy =
           Inr (floor_pass s floor_image cx cy (visible_cells s surface_size cx cy)
                @ wall_pass s wall_image cx cy (visible_cells s surface_size cx cy))"
proof -
  obtain sw sh where sz: "surface_size = (sw, sh)" by (cases surface_size)
  let ?xs = "py_range (max 0 (cx div tile_size s)) (min (width s) ((cx + sw) div tile_size s + 1))"
  let ?ys = "py_range (max 0 (cy div tile_size s)) (min (height s) ((cy + sh) div tile_size s + 1))"
  let ?fop = "\<lambda>(x, y). paint floor_image (200, 200, 200) (tile_size s) (screen_pos s cx cy x y)"
  let ?wop = "\<lambda>(x, y). paint wall_image (80, 60, 40) (tile_size s) (screen_pos s cx cy x y)"
  let ?isf = "\<lambda>(x, y). get_tile_at s x y = Inr 1"
  let ?isw = "\<lambda>(x, y). get_tile_at s x y = Inr 0 \<and> in_grid s x (y + 1) \<and> get_tile_at s x (y + 1) = Inr 1"
  have win: "in_grid s x y" if "x \<in> set ?xs" "y \<in> set ?ys" for x y
    using that by (simp add: set_py_range in_grid_def)
  have f_inner: "for_each ?ys (draw_floor_cell s floor_image cx cy x) ops
                   = Inr (ops @ map (\<lambda>y. ?fop (x, y)) (filter (\<lambda>y. ?isf (x, y)) ?ys))"
    if "x \<in> set ?xs" for x ops
  proof -
    have "for_each ?ys (draw_floor_cell s floor_image cx cy x) ops
            = Inr (ops @ concat (map (\<lambda>y. if ?isf (x, y) then [?fop (x, y)] else []) ?ys))"
      by (rule for_each_emits) (simp add: draw_floor_cell_in_grid[OF assms(1) win[OF that]])
    then show ?thesis by (simp only: concat_map_if)
  qed
  have f_outer: "for_each ?xs (\<lambda>x ops. for_each ?ys (draw_floor_cell s floor_image cx cy x) ops) []
                   = Inr ([] @ concat (map (\<lambda>x. map (\<lambda>y. ?fop (x, y)) (filter (\<lambda>y. ?isf (x, y)) ?ys)) ?xs))"
    by (rule for_each_emits) (rule f_inner)
  have w_inner: "for_each ?ys (draw_wall_cell s wall_image cx cy x) ops
                   = Inr (ops @ map (\<lambda>y. ?wop (x, y)) (filter (\<lambda>y. ?isw (x, y)) ?ys))"
    if "x \<in> set ?xs" for x ops
  proof -
    have "for_each ?ys (draw_wall_cell s wall_image cx cy x) ops
            = Inr (ops @ concat (map (\<lambda>y. if ?isw (x, y) then [?wop (x, y)] else []) ?ys))"
      by (rule for_each_emits) (simp add: draw_wall_cell_in_grid[OF assms(1) win[OF that]])
    then show ?thesis by (simp only: concat_map_if)
  qed
  have w_outer: "for_each ?xs (\<lambda>x ops. for_each ?ys (draw_wall_cell s wall_image cx cy x) ops) ops1
                   = Inr (ops1 @ concat (map (\<lambda>x. map (\<lambda>y. ?wop (x, y)) (filter (\<lambda>y. ?isw (x, y)) ?ys)) ?xs))"
    for ops1
    by (rule for_each_emits) (rule w_inner)
  have vis: "visible_cells s surface_size cx cy = List.product ?xs ?ys"
    by (simp add: visible_cells_def sz)
  have fp: "floor_pass s floor_image cx cy (List.product ?xs ?ys)
              = concat (map (\<lambda>x. map (\<lambda>y. ?fop (x, y)) (filter (\<lambda>y. ?isf (x, y)) ?ys)) ?xs)"
    unfolding floor_pass_def by (rule concat_map_product[symmetric])
  have wp: "wall_pass s wall_image cx cy (List.product ?xs ?ys)
              = concat (map (\<lambda>x. map (\<lambda>y. ?wop (x, y)) (filter (\<lambda>y. ?isw (x, y)) ?ys)) ?xs)"
    unfolding wall_pass_def by (rule concat_map_product[symmetric])
  have "draw s surface_size cx cy =
      (case for_each ?xs (\<lambda>x ops. for_each ?ys (draw_floor_cell s floor_image cx cy x) ops) [] of
         Inl e \<Rightarrow> Inl e
       | Inr ops1 \<Rightarrow> for_each ?xs (\<lambda>x ops. for_each ?ys (draw_wall_cell s wall_image cx cy x) ops) ops1)"
    unfolding draw_def sz Let_def using assms(2,3,4) by simp
  then show ?thesis unfolding f_outer w_outer vis fp wp by simp
qed

section \<open>Construction\<close>

lemma MapGenerator_init_grid:
  assumes "MapGenerator_init fs w h ts floor_ts floor_t wall_ts wall_t = (out, Inr s0)"
  shows "width s0 = w" "height s0 = h"
    "tilemap s0 = map (\<lambda>_. map (\<lambda>_. 0) (py_range 0 h)) (py_range 0 w)"
  using assms
  by (auto simp: MapGenerator_init_def Let_def split: sum.splits option.splits if_splits prod.splits)

lemma MapGenerator_init_grid_inv:
  assumes "MapGenerator_init fs w h ts floor_ts floor_t wall_ts wall_t = (out, Inr s0)"
  shows "grid_inv s0"
proof -
  note g = MapGenerator_init_grid[OF assms]
  have "grid_ok s0" by (auto simp: grid_ok_def g length_py_range)
  moreover have "cells_ok s0" by (auto simp: cells_ok_def g)
  ultimately show ?thesis by (simp add: grid_inv_def)
qed

lemma painted_grid_inv:
  assumes "grid_inv s" "painted s C v s'" "v = 0 \<or> v = 1"
  shows "grid_inv s' \<and> width s' = width s \<and> height s' = height s"
  using assms painted_dims[OF assms(2)] painted_cells_ok[OF assms(2)]
  by (simp add: grid_inv_def)

lemma generated_grid_inv:
  assumes "generated s rs s'"
  shows "grid_inv s' \<and> width s' = width s \<and> height s' = height s"
  using assms generated_cells_ok[OF assms] by (auto simp: grid_inv_def generated_def)

section \<open>Claims\<close>



text \<open>
  C3.  For room sizes that are not negative and a grid of fewer than \<open>2 ^ 31\<close> cells a
  side (so that every rectangle fits the 32-bit fields of \<open>pygame.Rect\<close>), as with the
  default 5 rooms of size 6 to 15: on a well-formed grid \<open>generate\<close> succeeds whenever the
  size range is not empty and the largest room fits (\<open>width - room_max_size - 1 \<ge> 1\<close>, the
  same for the height), that is on a grid of at least 17 by 17 for the default.  After every
  successful call \<open>rooms\<close> has exactly \<open>room_count\<close> entries, entry \<open>j\<close> is the rectangle
  drawn by iteration \<open>j\<close> of the loop (creation order), and every rectangle keeps the
  one-cell border: \<open>x \<ge> 1\<close>, \<open>y \<ge> 1\<close>, \<open>x + w \<le> width - 1\<close>, \<open>y + h \<le> height - 1\<close>.
\<close>

theorem generate_rooms_in_border:
  assumes "grid_ok s" and "0 \<le> room_min_size s" and "width s < 2 ^ 31" and "height s < 2 ^ 31"
  shows "(room_min_size s \<le> room_max_size s \<and> 1 \<le> width s - room_max_size s - 1
            \<and> 1 \<le> height s - room_max_size s - 1 \<longrightarrow> (\<exists>s'. generate s rng = Some (Inr s')))
       \<and> (\<forall>s'. generate s rng = Some (Inr s') \<longrightarrow>
             length (rooms s') = nat (room_count s)
           \<and> (\<forall>j < length (rooms s'). draw_room s rng (4 * j) = Inr (rooms s' ! j))
           \<and> (\<forall>r \<in> set (rooms s'). rect_fits r \<and> 1 \<le> rect_x r \<and> 1 \<le> rect_y r
                  \<and> rect_x r + rect_w r \<le> width s' - 1 \<and> rect_y r + rect_h r \<le> height s' - 1))"
proof -
  have succeeds: "\<exists>s'. generate s rng = Some (Inr s')"
    if "room_min_size s \<le> room_max_size s \<and> 1 \<le> width s - room_max_size s - 1
            \<and> 1 \<le> height s - room_max_size s - 1"
    using that generate_succeeds[OF assms(1)] by blast
  have post: "length (rooms s') = nat (room_count s)
           \<and> (\<forall>j < length (rooms s'). draw_room s rng (4 * j) = Inr (rooms s' ! j))
           \<and> (\<forall>r \<in> set (rooms s'). rect_fits r \<and> 1 \<le> rect_x r \<and> 1 \<le> rect_y r
                  \<and> rect_x r + rect_w r \<le> width s' - 1 \<and> rect_y r + rect_h r \<le> height s' - 1)"
    if g: "generate s rng = Some (Inr s')" for s'
  proof -
    obtain rs where len: "length rs = nat (room_count s)"
      and dr: "\<forall>i < length rs. draw_room s rng (4 * i) = Inr (rs ! i)"
      and gen: "generated s rs s'"
      using generate_success[OF assms(1) g] by blast
    have rs: "rooms s' = rs" and dims: "width s' = width s" "height s' = height s"
      using gen by (auto simp: generated_def)
    have "\<forall>r \<in> set (rooms s'). rect_fits r \<and> 1 \<le> rect_x r \<and> 1 \<le> rect_y r
            \<and> rect_x r + rect_w r \<le> width s' - 1 \<and> rect_y r + rect_h r \<le> height s' - 1"
    proof
      fix r assume "r \<in> set (rooms s')"
      then obtain i where i: "i < length rs" "r = rs ! i" using rs by (auto simp: in_set_conv_nth)
      have d: "draw_room s rng (4 * i) = Inr r" using dr i by simp
      have fits: "rect_fits r" using d assms(2,3,4) by (rule draw_room_fits)
      have "room_in_border s r" using d by (rule draw_room_ok)
      then show "rect_fits r \<and> 1 \<le> rect_x r \<and> 1 \<le> rect_y r
            \<and> rect_x r + rect_w r \<le> width s' - 1 \<and> rect_y r + rect_h r \<le> height s' - 1"
        using dims fits by (simp add: room_in_border_def)
    qed
    then show ?thesis using rs len dr by simp
  qed
  show ?thesis using succeeds post by blast
qed

theorem generate_rooms_in_border_witness:
  "grid_ok default_map \<and> 0 \<le> room_min_size default_map
   \<and> width default_map < 2 ^ 31 \<and> height default_map < 2 ^ 31
   \<and> room_count default_map = 5 \<and> room_min_size default_map = 6 \<and> room_max_size default_map = 15
   \<and> 1 \<le> width default_map - room_max_size default_map - 1
   \<and> 1 \<le> height default_map - room_max_size default_map - 1
   \<and> (\<exists>s'. generate default_map default_rng = Some (Inr s')
          \<and> rooms s' = [Rect 11 1 6 11, Rect 5 1 6 11, Rect 12 1 6 11, Rect 6 1 6 11, Rect 13 1 6 11]
          \<and> length (rooms s') = nat (room_count default_map)
          \<and> draw_room default_map default_rng (4 * 2) = Inr (rooms s' ! 2)
          \<and> rect_fits (rooms s' ! 4)
          \<and> 1 \<le> rect_x (rooms s' ! 4) \<and> 1 \<le> rect_y (rooms s' ! 4)
          \<and> rect_x (rooms s' ! 4) + rect_w (rooms s' ! 4) \<le> width s' - 1
          \<and> rect_y (rooms s' ! 4) + rect_h (rooms s' ! 4) \<le> height s' - 1)"
proof -
  have ok: "grid_ok default_map" by code_simp
  have sizes: "0 \<le> room_min_size default_map" by code_simp
  have w: "width default_map < 2 ^ 31" by code_simp
  have h: "height default_map < 2 ^ 31" by code_simp
  have cfg: "room_count default_map = 5 \<and> room_min_size default_map = 6 \<and> room_max_size default_map = 15
     \<and> 1 \<le> width default_map - room_max_size default_map - 1
     \<and> 1 \<le> height default_map - room_max_size default_map - 1"
    by code_simp
  have run: "case generate default_map default_rng of
               Some (Inr s') \<Rightarrow>
                 rooms s' = [Rect 11 1 6 11, Rect 5 1 6 11, Rect 12 1 6 11, Rect 6 1 6 11, Rect 13 1 6 11]
             | _ \<Rightarrow> False"
    by code_simp
  then obtain s' where g: "generate default_map default_rng = Some (Inr s')"
    and r: "rooms s' = [Rect 11 1 6 11, Rect 5 1 6 11, Rect 12 1 6 11, Rect 6 1 6 11, Rect 13 1 6 11]"
    by (auto split: option.splits sum.splits)
  have post: "length (rooms s') = nat (room_count default_map)"
    "\<forall>j < length (rooms s'). draw_room default_map default_rng (4 * j) = Inr (rooms s' ! j)"
    "\<forall>r \<in> set (rooms s'). rect_fits r \<and> 1 \<le> rect_x r \<and> 1 \<le> rect_y r
        \<and> rect_x r + rect_w r \<le> width s' - 1 \<and> rect_y r + rect_h r \<le> height s' - 1"
    using generate_rooms_in_border[OF ok sizes w h, of default_rng] g by blast+
  have "2 < length (rooms s')" using r by simp
  then have third: "draw_room default_map default_rng (4 * 2) = Inr (rooms s' ! 2)"
    using post(2) by blast
  have "rooms s' ! 4 \<in> set (rooms s')" using r by simp
  then have last: "rect_fits (rooms s' ! 4)
          \<and> 1 \<le> rect_x (rooms s' ! 4) \<and> 1 \<le> rect_y (rooms s' ! 4)
          \<and> rect_x (rooms s' ! 4) + rect_w (rooms s' ! 4) \<le> width s' - 1
          \<and> rect_y (rooms s' ! 4) + rect_h (rooms s' ! 4) \<le> height s' - 1"
    using post(3) by blast
  show ?thesis using ok sizes w h cfg g r post(1) third last by blast
qed

text \<open>
  C4.  \<open>create_corridor\<close> always returns, and it does exactly what the walk of the
  specification does: it visits the cells from \<open>start.x\<close> toward \<open>end.x\<close> (without
  \<open>end.x\<close>) on the row \<open>start.y\<close>, then the cells from \<open>start.y\<close> toward \<open>end.y\<close> (without
  \<open>end.y\<close>) on the column \<open>end.x\<close>, in this order, one write of Floor per cell in the grid
  and nothing for a cell outside it.  On a well-formed grid no write fails, and the grid
  afterwards differs from the grid before exactly by Floor on the visited cells that lie
  in the grid.
\<close>

theorem create_corridor_carves_L:
  "create_corridor s start end' = Some (corridor_spec s start end')
   \<and> (grid_ok s \<longrightarrow>
        (\<exists>s'. create_corridor s start end' = Some (Inr s') \<and> (\<exists>tm. s' = s\<lparr>tilemap := tm\<rparr>)
            \<and> grid_ok s'
            \<and> (\<forall>x y. get_tile_at s' x y =
                  (if in_grid s x y \<and> (x, y) \<in> set (corridor_cells start end') then Inr 1
                   else get_tile_at s x y))))"
proof (intro conjI impI)
  show "create_corridor s start end' = Some (corridor_spec s start end')"
    by (rule create_corridor_refines)
next
  assume "grid_ok s"
  then obtain s' where "create_corridor s start end' = Some (Inr s')"
    and "painted s (set (corridor_cells start end')) 1 s'"
    using create_corridor_painted by blast
  then show "\<exists>s'. create_corridor s start end' = Some (Inr s') \<and> (\<exists>tm. s' = s\<lparr>tilemap := tm\<rparr>)
            \<and> grid_ok s'
            \<and> (\<forall>x y. get_tile_at s' x y =
                  (if in_grid s x y \<and> (x, y) \<in> set (corridor_cells start end') then Inr 1
                   else get_tile_at s x y))"
    unfolding painted_def by blast
qed

theorem create_corridor_carves_L_witness:
  "grid_ok example_map
   \<and> corridor_cells (- 2, 2) (2, 4) = [(- 2, 2), (- 1, 2), (0, 2), (1, 2), (2, 2), (2, 3)]
   \<and> create_corridor example_map (- 2, 2) (2, 4)
       = Some (Inr (example_map\<lparr>tilemap :=
           [[0, 0, 1, 0, 0, 0, 0], [0, 0, 1, 0, 0, 0, 0], [0, 0, 1, 1, 0, 0, 0], [0, 0, 0, 0, 0, 0, 0],
            [0, 0, 0, 0, 0, 0, 0], [0, 0, 0, 0, 0, 0, 0], [0, 0, 0, 0, 0, 0, 0], [0, 0, 0, 0, 0, 0, 0]]\<rparr>))
   \<and> (\<exists>s'. create_corridor example_map (- 2, 2) (2, 4) = Some (Inr s')
         \<and> get_tile_at s' 2 3 = Inr 1 \<and> get_tile_at s' 2 4 = Inr 0)"
proof -
  have cells: "corridor_cells (- 2, 2) (2, 4) = [(- 2, 2), (- 1, 2), (0, 2), (1, 2), (2, 2), (2, 3)]"
    by code_simp
  have run: "create_corridor example_map (- 2, 2) (2, 4)
       = Some (Inr (example_map\<lparr>tilemap :=
           [[0, 0, 1, 0, 0, 0, 0], [0, 0, 1, 0, 0, 0, 0], [0, 0, 1, 1, 0, 0, 0], [0, 0, 0, 0, 0, 0, 0],
            [0, 0, 0, 0, 0, 0, 0], [0, 0, 0, 0, 0, 0, 0], [0, 0, 0, 0, 0, 0, 0], [0, 0, 0, 0, 0, 0, 0]]\<rparr>))"
    by code_simp
  have g: "in_grid example_map 2 3" "in_grid example_map 2 4"
    "get_tile_at example_map 2 4 = Inr 0"
    by code_simp+
  obtain s' where c: "create_corridor example_map (- 2, 2) (2, 4) = Some (Inr s')"
    and p: "\<forall>x y. get_tile_at s' x y =
                  (if in_grid example_map x y \<and> (x, y) \<in> set (corridor_cells (- 2, 2) (2, 4)) then Inr 1
                   else get_tile_at example_map x y)"
    using create_corridor_carves_L[of example_map "(- 2, 2)" "(2, 4)"] example_map_grid_ok by blast
  have "get_tile_at s' 2 3 = Inr 1" "get_tile_at s' 2 4 = Inr 0"
    using p g by (simp_all add: cells)
  then show ?thesis using example_map_grid_ok cells run c by blast
qed

text \<open>
  C6.  For every coordinate pair outside the grid \<open>get_tile_at\<close> returns Wall (0) and
  \<open>is_walkable\<close> returns false, neither raising; for every pair \<open>is_walkable\<close> is true
  exactly when \<open>get_tile_at\<close> is Floor (1); and on a well-formed grid both return for
  every pair.
\<close>

theorem outside_grid_is_wall:
  "(\<not> (0 \<le> x \<and> x < width s \<and> 0 \<le> y \<and> y < height s) \<longrightarrow>
        get_tile_at s x y = Inr 0 \<and> is_walkable s x y = Inr False)
   \<and> (is_walkable s x y = Inr True \<longleftrightarrow> get_tile_at s x y = Inr 1)
   \<and> (grid_ok s \<longrightarrow> (\<exists>v. get_tile_at s x y = Inr v \<and> is_walkable s x y = Inr (v = 1)))"
proof (intro conjI impI)
  assume "\<not> (0 \<le> x \<and> x < width s \<and> 0 \<le> y \<and> y < height s)"
  then have "get_tile_at s x y = Inr 0" by (simp add: get_tile_at_outside in_grid_def)
  then show "get_tile_at s x y = Inr 0" "is_walkable s x y = Inr False"
    by (simp_all add: is_walkable_def)
next
  show "is_walkable s x y = Inr True \<longleftrightarrow> get_tile_at s x y = Inr 1"
    by (auto simp: is_walkable_def split: sum.splits)
next
  assume ok: "grid_ok s"
  have "\<exists>v. get_tile_at s x y = Inr v"
    using get_tile_at_in_grid[OF ok] get_tile_at_outside by (cases "in_grid s x y") blast+
  then show "\<exists>v. get_tile_at s x y = Inr v \<and> is_walkable s x y = Inr (v = 1)"
    by (auto simp: is_walkable_def)
qed

theorem outside_grid_is_wall_witness:
  "\<not> (0 \<le> (8::int) \<and> 8 < width example_generated \<and> 0 \<le> (2::int) \<and> 2 < height example_generated)
   \<and> get_tile_at example_generated 8 2 = Inr 0 \<and> is_walkable example_generated 8 2 = Inr False
   \<and> get_tile_at example_generated (- 1) 2 = Inr 0 \<and> is_walkable example_generated (- 1) 2 = Inr False
   \<and> grid_ok example_generated
   \<and> get_tile_at example_generated 2 2 = Inr 1 \<and> is_walkable example_generated 2 2 = Inr True"
proof -
  have a: "\<not> (0 \<le> (8::int) \<and> 8 < width example_generated \<and> 0 \<le> (2::int) \<and> 2 < height example_generated)"
    by code_simp
  have b: "\<not> (0 \<le> (- 1::int) \<and> - 1 < width example_generated \<and> 0 \<le> (2::int) \<and> 2 < height example_generated)"
    by code_simp
  have c: "grid_ok example_generated" "get_tile_at example_generated 2 2 = Inr 1" by code_simp+
  show ?thesis
    using outside_grid_is_wall[of 8 example_generated 2] outside_grid_is_wall[of "- 1" example_generated 2]
      outside_grid_is_wall[of 2 example_generated 2] a b c
    by simp
qed

text \<open>
  C7.  \<open>get_tile\<close> never raises, whatever the two integers.  It returns \<open>None\<close> exactly
  when the sheet index is outside \<open>[0, get_tileset_count)\<close> or the tile index is outside
  \<open>[0, get_tile_count(sheet))\<close>, and the stored tile for every pair in range.
\<close>

theorem get_tile_never_raises:
  "\<exists>r n. get_tile sel i j = Inr r \<and> get_tile_count sel i = Inr n
     \<and> (r = None \<longleftrightarrow> \<not> (0 \<le> i \<and> i < get_tileset_count sel) \<or> \<not> (0 \<le> j \<and> j < n))
     \<and> (0 \<le> i \<and> i < get_tileset_count sel \<and> 0 \<le> j \<and> j < n \<longrightarrow>
          r = Some (tileset_images sel ! nat i ! nat j))"
proof (cases "0 \<le> i \<and> i < get_tileset_count sel")
  case False
  then have "get_tile sel i j = Inr None" "get_tile_count sel i = Inr 0"
    by (auto simp: get_tile_def get_tile_count_def get_tileset_count_def)
  then show ?thesis using False by simp
next
  case True
  then have sheet: "py_getitem (tileset_images sel) i = Inr (tileset_images sel ! nat i)"
    by (simp add: py_getitem_in_range get_tileset_count_def)
  let ?tiles = "tileset_images sel ! nat i"
  have n: "get_tile_count sel i = Inr (int (length ?tiles))"
    using True by (simp add: get_tile_count_in_range)
  show ?thesis
  proof (cases "0 \<le> j \<and> j < int (length ?tiles)")
    case False
    then have "get_tile sel i j = Inr None" using True sheet
      by (auto simp: get_tile_def get_tileset_count_def)
    then show ?thesis using n False by simp
  next
    case inr: True
    then have "py_getitem ?tiles j = Inr (?tiles ! nat j)" by (simp add: py_getitem_in_range)
    then have "get_tile sel i j = Inr (Some (?tiles ! nat j))" using True sheet inr
      by (simp add: get_tile_def get_tileset_count_def)
    then show ?thesis using n True inr by simp
  qed
qed

theorem get_tile_never_raises_witness:
  "get_tileset_count example_selector = 1 \<and> get_tile_count example_selector 0 = Inr 2
   \<and> get_tile example_selector 0 1 = Inr (Some (cut_tile ''assets/tileset1.png'' 48 1 0))
   \<and> get_tile example_selector (- 1) 0 = Inr None \<and> get_tile example_selector 1 0 = Inr None
   \<and> get_tile example_selector 0 (- 1) = Inr None \<and> get_tile example_selector 0 2 = Inr None"
proof -
  have c: "get_tileset_count example_selector = 1" "get_tile_count example_selector 0 = Inr 2"
    "get_tile_count example_selector (- 1) = Inr 0" "get_tile_count example_selector 1 = Inr 0"
    "tileset_images example_selector ! nat 0 ! nat 1 = cut_tile ''assets/tileset1.png'' 48 1 0"
    by code_simp+
  show ?thesis
    using get_tile_never_raises[of example_selector 0 1] get_tile_never_raises[of example_selector "- 1" 0]
      get_tile_never_raises[of example_selector 1 0] get_tile_never_raises[of example_selector 0 "- 1"]
      get_tile_never_raises[of example_selector 0 2] c
    by auto
qed

text \<open>
  C2, as the specification states it, fails: \<open>generate\<close> has no check before it mutates.
  On the 10 by 10 grid that \<open>__init__\<close> returns the first room (6 by 6) is placed and carved, the second draw
  gives a width of 9, the range for \<open>x\<close> is empty and \<open>random.randint\<close> raises
  \<open>ValueError\<close>; the object is left with one room and with Floor cells.
\<close>

theorem generate_failure_counterexample:
  "snd (MapGenerator_init small_fs 10 10 48 0 0 0 1) = Inr fresh_map
   \<and> generate fresh_map fresh_rng = Some (Inl (ValueError, fresh_failed))
   \<and> rooms fresh_failed \<noteq> rooms fresh_map \<and> tilemap fresh_failed \<noteq> tilemap fresh_map"
  by code_simp

text \<open>
  C2, amended.  For room sizes that are not negative and a grid of fewer than \<open>2 ^ 31\<close>
  cells a side (so that every rectangle fits the 32-bit fields of \<open>pygame.Rect\<close>): on a
  well-formed grid the only way \<open>generate\<close> fails is the \<open>ValueError\<close> of a draw with an
  empty range, which needs \<open>room_max_size < room_min_size\<close>,
  \<open>width - room_max_size - 1 < 1\<close> or \<open>height - room_max_size - 1 < 1\<close>.  It is raised
  at the head of an iteration, after \<open>rooms\<close> was cleared and the grid reset, and nothing is
  rolled back: \<open>rooms\<close> holds the fewer than \<open>room_count\<close> rooms drawn before the failing
  draw, in order, and the grid is Wall except for the rooms and corridors carved for them.
\<close>

theorem generate_failure_keeps_partial_map:
  assumes "grid_ok s" and "0 \<le> room_min_size s" and "width s < 2 ^ 31" and "height s < 2 ^ 31"
    and "generate s rng = Some (Inl (e, s'))"
  shows "e = ValueError
       \<and> (room_max_size s < room_min_size s \<or> width s - room_max_size s - 1 < 1
            \<or> height s - room_max_size s - 1 < 1)
       \<and> length (rooms s') < nat (room_count s)
       \<and> (\<forall>j < length (rooms s'). draw_room s rng (4 * j) = Inr (rooms s' ! j))
       \<and> (\<forall>r \<in> set (rooms s'). rect_fits r)
       \<and> draw_room s rng (4 * length (rooms s')) = Inl ValueError
       \<and> generated s (rooms s') s'"
proof -
  obtain rs where e: "e = ValueError" and len: "length rs < nat (room_count s)"
    and dr: "\<forall>j < length rs. draw_room s rng (4 * j) = Inr (rs ! j)"
    and gen: "generated s rs s'"
    and bad: "draw_room s rng (4 * length rs) = Inl ValueError"
    using generate_failure[OF assms(1,5)] by blast
  have rs: "rooms s' = rs" using gen by (auto simp: generated_def)
  have cause: "room_max_size s < room_min_size s \<or> width s - room_max_size s - 1 < 1
            \<or> height s - room_max_size s - 1 < 1"
    using bad by (rule draw_room_error_cause)
  have fits: "\<forall>r \<in> set rs. rect_fits r"
  proof
    fix r assume "r \<in> set rs"
    then obtain i where i: "i < length rs" "r = rs ! i" by (auto simp: in_set_conv_nth)
    have "draw_room s rng (4 * i) = Inr r" using dr i by simp
    then show "rect_fits r" using assms(2,3,4) by (rule draw_room_fits)
  qed
  show ?thesis using e cause len dr fits gen bad rs by simp
qed

theorem generate_failure_keeps_partial_map_witness:
  "grid_ok fresh_map \<and> 0 \<le> room_min_size fresh_map
   \<and> width fresh_map < 2 ^ 31 \<and> height fresh_map < 2 ^ 31
   \<and> generate fresh_map fresh_rng = Some (Inl (ValueError, fresh_failed))
   \<and> width fresh_map - room_max_size fresh_map - 1 < 1
   \<and> rooms fresh_failed = [Rect 1 1 6 6]
   \<and> rect_fits (Rect 1 1 6 6)
   \<and> length (rooms fresh_failed) < nat (room_count fresh_map)
   \<and> draw_room fresh_map fresh_rng 0 = Inr (Rect 1 1 6 6)
   \<and> draw_room fresh_map fresh_rng (4 * length (rooms fresh_failed)) = Inl ValueError
   \<and> generated fresh_map (rooms fresh_failed) fresh_failed
   \<and> get_tile_at fresh_failed 6 6 = Inr 1 \<and> get_tile_at fresh_failed 7 6 = Inr 0"
proof -
  have ok: "grid_ok fresh_map" by code_simp
  have sizes: "0 \<le> room_min_size fresh_map" by code_simp
  have w: "width fresh_map < 2 ^ 31" by code_simp
  have h: "height fresh_map < 2 ^ 31" by code_simp
  have run: "generate fresh_map fresh_rng = Some (Inl (ValueError, fresh_failed))" by code_simp
  have more: "width fresh_map - room_max_size fresh_map - 1 < 1" "rooms fresh_failed = [Rect 1 1 6 6]"
    "draw_room fresh_map fresh_rng 0 = Inr (Rect 1 1 6 6)"
    "get_tile_at fresh_failed 6 6 = Inr 1" "get_tile_at fresh_failed 7 6 = Inr 0"
    by code_simp+
  note main = generate_failure_keeps_partial_map[OF ok sizes w h run]
  have "\<forall>r \<in> set (rooms fresh_failed). rect_fits r" using main by blast
  then have fits: "rect_fits (Rect 1 1 6 6)" using more(2) by simp
  show ?thesis using main ok sizes w h run more fits by simp
qed

text \<open>
  C8.  With a positive tile size \<open>T\<close>, a provider that was built has one sheet per located
  source, in order, and the sheet from a picture of \<open>W\<close> by \<open>H\<close> pixels has exactly
  \<open>(W div T) * (H div T)\<close> tiles (partial trailing rows and columns are dropped).  The
  order is row-major: for \<open>row < H div T\<close> and \<open>col < W div T\<close>, tile
  \<open>row * (W div T) + col\<close> is the \<open>T\<close> by \<open>T\<close> square of that picture whose left edge is
  at pixel \<open>col * T\<close> and whose top edge is at pixel \<open>row * T\<close>.  One 480 by 48 picture with
  tile size 48 gives one sheet of 10 tiles; a 150 by 100 picture gives 2 rows of 3.
\<close>

theorem tiles_cut_row_major:
  assumes "0 < ts" and "TileSelector_init fs paths ts = (out, Inr sel)"
  shows "get_tileset_count sel = int (length (filter (path_exists fs) paths))
       \<and> (\<forall>k < length (filter (path_exists fs) paths).
            \<exists>W H. fs (filter (path_exists fs) paths ! k) = Some (Picture W H)
              \<and> get_tile_count sel (int k) = Inr (int ((W div nat ts) * (H div nat ts)))
              \<and> (\<forall>row < H div nat ts. \<forall>col < W div nat ts.
                    get_tile sel (int k) (int (row * (W div nat ts) + col))
                      = Inr (Some \<lparr>tile_source = filter (path_exists fs) paths ! k,
                                   tile_left = int col * ts, tile_top = int row * ts,
                                   tile_w = ts, tile_h = ts\<rparr>)))"
proof -
  let ?found = "filter (path_exists fs) paths"
  have nz: "ts \<noteq> 0" using assms(1) by simp
  have r: "snd (TileSelector_init fs paths ts) = Inr sel" using assms(2) by simp
  then have good: "\<not> (\<exists>p \<in> set paths. fs p = Some Undecodable)"
    and sel: "sel = \<lparr>sel_tile_size = ts, tileset_images = map (sheet_tiles fs ts) ?found,
                      tileset_names = map basename ?found\<rparr>"
    unfolding TileSelector_init_sheets[OF nz] by (auto split: if_splits)
  have count: "get_tileset_count sel = int (length ?found)" by (simp add: sel get_tileset_count_def)
  have each: "\<exists>W H. fs (?found ! k) = Some (Picture W H)
              \<and> get_tile_count sel (int k) = Inr (int ((W div nat ts) * (H div nat ts)))
              \<and> (\<forall>row < H div nat ts. \<forall>col < W div nat ts.
                    get_tile sel (int k) (int (row * (W div nat ts) + col))
                      = Inr (Some \<lparr>tile_source = ?found ! k,
                                   tile_left = int col * ts, tile_top = int row * ts,
                                   tile_w = ts, tile_h = ts\<rparr>))"
    if k: "k < length ?found" for k
  proof -
    have mem: "?found ! k \<in> set ?found" using k by (rule nth_mem)
    then have "path_exists fs (?found ! k)" "?found ! k \<in> set paths" by simp_all
    then obtain f where f: "fs (?found ! k) = Some f" "f \<noteq> Undecodable"
      using good by (auto simp: path_exists_def)
    then obtain W H where pic: "fs (?found ! k) = Some (Picture W H)"
      by (cases f) auto
    have sheet: "tileset_images sel ! k = sheet_tiles fs ts (?found ! k)" using k by (simp add: sel)
    have kr: "0 \<le> int k" "int k < get_tileset_count sel" using k count by simp_all
    have len: "length (sheet_tiles fs ts (?found ! k)) = (W div nat ts) * (H div nat ts)"
      using length_sheet_tiles[of fs "?found ! k" W H ts] pic assms(1) by simp
    have tc: "get_tile_count sel (int k) = Inr (int ((W div nat ts) * (H div nat ts)))"
      using get_tile_count_in_range[OF kr] sheet len by simp
    have "get_tile sel (int k) (int (row * (W div nat ts) + col))
            = Inr (Some \<lparr>tile_source = ?found ! k,
                         tile_left = int col * ts, tile_top = int row * ts,
                         tile_w = ts, tile_h = ts\<rparr>)"
      if rc: "row < H div nat ts" "col < W div nat ts" for row col
    proof -
      have "row * (W div nat ts) + col < (W div nat ts) * (H div nat ts)"
      proof -
        have "row * (W div nat ts) + col < row * (W div nat ts) + (W div nat ts)" using rc(2) by simp
        also have "\<dots> = Suc row * (W div nat ts)" by simp
        also have "\<dots> \<le> (H div nat ts) * (W div nat ts)" using rc(1) by (intro mult_le_mono1) simp
        finally show ?thesis by (simp add: mult.commute)
      qed
      then have "int (row * (W div nat ts) + col) < int ((W div nat ts) * (H div nat ts))"
        by (rule iffD2[OF of_nat_less_iff])
      moreover have "length (tileset_images sel ! nat (int k)) = (W div nat ts) * (H div nat ts)"
        using sheet len by simp
      ultimately have idx: "0 \<le> int (row * (W div nat ts) + col)"
        "int (row * (W div nat ts) + col) < int (length (tileset_images sel ! nat (int k)))"
        by (simp_all only: of_nat_0_le_iff)
      have "get_tile sel (int k) (int (row * (W div nat ts) + col))
              = Inr (Some (tileset_images sel ! nat (int k) ! nat (int (row * (W div nat ts) + col))))"
        using kr idx by (intro get_tile_in_range)
      then have "get_tile sel (int k) (int (row * (W div nat ts) + col))
              = Inr (Some (tileset_images sel ! k ! (row * (W div nat ts) + col)))"
        by (simp only: nat_int)
      then show ?thesis
        using sheet nth_sheet_tiles[of fs "?found ! k" W H ts row col] pic assms(1) rc
        by (simp add: cut_tile_def)
    qed
    then show ?thesis using pic tc by blast
  qed
  show ?thesis using count each by blast
qed

theorem tiles_cut_row_major_witness:
  "0 < (48::int)
   \<and> (\<exists>out sel. TileSelector_init example_fs [''assets/tileset1.png''] 48 = (out, Inr sel)
          \<and> get_tileset_count sel = 1 \<and> get_tile_count sel 0 = Inr 10
          \<and> get_tile sel 0 9 = Inr (Some \<lparr>tile_source = ''assets/tileset1.png'', tile_left = 432,
                                           tile_top = 0, tile_w = 48, tile_h = 48\<rparr>)
          \<and> get_tile sel 0 10 = Inr None)
   \<and> (\<exists>out sel. TileSelector_init example_fs [''assets/sheet.png''] 48 = (out, Inr sel)
          \<and> get_tileset_count sel = 1 \<and> get_tile_count sel 0 = Inr 6
          \<and> get_tile sel 0 2 = Inr (Some \<lparr>tile_source = ''assets/sheet.png'', tile_left = 96,
                                           tile_top = 0, tile_w = 48, tile_h = 48\<rparr>)
          \<and> get_tile sel 0 3 = Inr (Some \<lparr>tile_source = ''assets/sheet.png'', tile_left = 0,
                                           tile_top = 48, tile_w = 48, tile_h = 48\<rparr>)
          \<and> get_tile sel 0 4 = Inr (Some \<lparr>tile_source = ''assets/sheet.png'', tile_left = 48,
                                           tile_top = 48, tile_w = 48, tile_h = 48\<rparr>)
          \<and> get_tile sel 0 6 = Inr None)"
proof -
  have pos: "0 < (48::int)" by simp
  have strip: "\<exists>out sel. TileSelector_init example_fs [''assets/tileset1.png''] 48 = (out, Inr sel)
          \<and> get_tileset_count sel = 1 \<and> get_tile_count sel 0 = Inr 10
          \<and> get_tile sel 0 9 = Inr (Some \<lparr>tile_source = ''assets/tileset1.png'', tile_left = 432,
                                           tile_top = 0, tile_w = 48, tile_h = 48\<rparr>)
          \<and> get_tile sel 0 10 = Inr None"
  proof -
    have run: "case TileSelector_init example_fs [''assets/tileset1.png''] 48 of
                 (out, Inr sel) \<Rightarrow> get_tile sel 0 10 = Inr None | _ \<Rightarrow> False"
      by code_simp
    then obtain out sel where init: "TileSelector_init example_fs [''assets/tileset1.png''] 48 = (out, Inr sel)"
      and past: "get_tile sel 0 10 = Inr None"
      by (auto split: prod.splits sum.splits)
    have found: "filter (path_exists example_fs) [''assets/tileset1.png''] = [''assets/tileset1.png'']"
      by code_simp
    have pic: "example_fs ''assets/tileset1.png'' = Some (Picture 480 48)" by code_simp
    note main = tiles_cut_row_major[OF pos init]
    have count: "get_tileset_count sel = 1" using main found by simp
    obtain W H where wh: "example_fs ''assets/tileset1.png'' = Some (Picture W H)"
      and tc: "get_tile_count sel (int 0) = Inr (int ((W div nat 48) * (H div nat 48)))"
      and tiles: "\<forall>row < H div nat 48. \<forall>col < W div nat 48.
                      get_tile sel (int 0) (int (row * (W div nat 48) + col))
                        = Inr (Some \<lparr>tile_source = ''assets/tileset1.png'',
                                     tile_left = int col * 48, tile_top = int row * 48,
                                     tile_w = 48, tile_h = 48\<rparr>)"
      using main found by auto
    have WH: "W = 480" "H = 48" using wh pic by simp_all
    have "get_tile_count sel 0 = Inr 10" using tc WH by simp
    moreover have "get_tile sel 0 9 = Inr (Some \<lparr>tile_source = ''assets/tileset1.png'', tile_left = 432,
                                           tile_top = 0, tile_w = 48, tile_h = 48\<rparr>)"
      using tiles[rule_format, of 0 9] WH by simp
    ultimately show ?thesis using init count past by blast
  qed
  have grid: "\<exists>out sel. TileSelector_init example_fs [''assets/sheet.png''] 48 = (out, Inr sel)
          \<and> get_tileset_count sel = 1 \<and> get_tile_count sel 0 = Inr 6
          \<and> get_tile sel 0 2 = Inr (Some \<lparr>tile_source = ''assets/sheet.png'', tile_left = 96,
                                           tile_top = 0, tile_w = 48, tile_h = 48\<rparr>)
          \<and> get_tile sel 0 3 = Inr (Some \<lparr>tile_source = ''assets/sheet.png'', tile_left = 0,
                                           tile_top = 48, tile_w = 48, tile_h = 48\<rparr>)
          \<and> get_tile sel 0 4 = Inr (Some \<lparr>tile_source = ''assets/sheet.png'', tile_left = 48,
                                           tile_top = 48, tile_w = 48, tile_h = 48\<rparr>)
          \<and> get_tile sel 0 6 = Inr None"
  proof -
    have run: "case TileSelector_init example_fs [''assets/sheet.png''] 48 of
                 (out, Inr sel) \<Rightarrow> get_tile sel 0 6 = Inr None | _ \<Rightarrow> False"
      by code_simp
    then obtain out sel where init: "TileSelector_init example_fs [''assets/sheet.png''] 48 = (out, Inr sel)"
      and past: "get_tile sel 0 6 = Inr None"
      by (auto split: prod.splits sum.splits)
    have found: "filter (path_exists example_fs) [''assets/sheet.png''] = [''assets/sheet.png'']"
      by code_simp
    have pic: "example_fs ''assets/sheet.png'' = Some (Picture 150 100)" by code_simp
    note main = tiles_cut_row_major[OF pos init]
    have count: "get_tileset_count sel = 1" using main found by simp
    obtain W H where wh: "example_fs ''assets/sheet.png'' = Some (Picture W H)"
      and tc: "get_tile_count sel (int 0) = Inr (int ((W div nat 48) * (H div nat 48)))"
      and tiles: "\<forall>row < H div nat 48. \<forall>col < W div nat 48.
                      get_tile sel (int 0) (int (row * (W div nat 48) + col))
                        = Inr (Some \<lparr>tile_source = ''assets/sheet.png'',
                                     tile_left = int col * 48, tile_top = int row * 48,
                                     tile_w = 48, tile_h = 48\<rparr>)"
      using main found by auto
    have WH: "W = 150" "H = 100" using wh pic by simp_all
    have a: "get_tile_count sel 0 = Inr 6" using tc WH by simp
    have b: "get_tile sel 0 2 = Inr (Some \<lparr>tile_source = ''assets/sheet.png'', tile_left = 96,
                                           tile_top = 0, tile_w = 48, tile_h = 48\<rparr>)"
      using tiles[rule_format, of 0 2] WH by simp
    have c: "get_tile sel 0 3 = Inr (Some \<lparr>tile_source = ''assets/sheet.png'', tile_left = 0,
                                           tile_top = 48, tile_w = 48, tile_h = 48\<rparr>)"
      using tiles[rule_format, of 1 0] WH by simp
    have d: "get_tile sel 0 4 = Inr (Some \<lparr>tile_source = ''assets/sheet.png'', tile_left = 48,
                                           tile_top = 48, tile_w = 48, tile_h = 48\<rparr>)"
      using tiles[rule_format, of 1 1] WH by simp
    show ?thesis using init count past a b c d by blast
  qed
  show ?thesis using pos strip grid by blast
qed

text \<open>
  C9.  With a tile size other than zero: a source that cannot be located is skipped, with
  one warning each, and loading goes on, so the outcome is the one of loading the located
  sources only; when no source is undecodable the provider is built, with one sheet per
  located source (none when nothing is located).  A located source that cannot be decoded
  aborts the construction with \<open>RuntimeError\<close>, and nothing else does.
\<close>

theorem missing_skipped_undecodable_fatal:
  assumes "ts \<noteq> 0"
  shows "snd (TileSelector_init fs paths ts) = snd (TileSelector_init fs (filter (path_exists fs) paths) ts)
       \<and> filter is_warning (fst (TileSelector_init fs paths ts))
            = map Warning_not_found
                (filter (\<lambda>p. \<not> path_exists fs p) (takeWhile (\<lambda>p. fs p \<noteq> Some Undecodable) paths))
       \<and> (snd (TileSelector_init fs paths ts) = Inl RuntimeError \<longleftrightarrow> (\<exists>p \<in> set paths. fs p = Some Undecodable))
       \<and> ((\<forall>p \<in> set paths. fs p \<noteq> Some Undecodable) \<longrightarrow>
            (\<exists>sel. snd (TileSelector_init fs paths ts) = Inr sel
               \<and> length (tileset_images sel) = length (filter (path_exists fs) paths)
               \<and> tileset_names sel = map basename (filter (path_exists fs) paths)))"
proof -
  have "(\<exists>p \<in> set (filter (path_exists fs) paths). fs p = Some Undecodable)
          = (\<exists>p \<in> set paths. fs p = Some Undecodable)"
    by (auto simp: path_exists_def)
  then have a: "snd (TileSelector_init fs paths ts) = snd (TileSelector_init fs (filter (path_exists fs) paths) ts)"
    unfolding TileSelector_init_sheets[OF assms] by simp
  have b: "filter is_warning (fst (TileSelector_init fs paths ts))
            = map Warning_not_found
                (filter (\<lambda>p. \<not> path_exists fs p) (takeWhile (\<lambda>p. fs p \<noteq> Some Undecodable) paths))"
    using assms by (rule TileSelector_init_warnings)
  have c: "snd (TileSelector_init fs paths ts) = Inl RuntimeError \<longleftrightarrow> (\<exists>p \<in> set paths. fs p = Some Undecodable)"
    unfolding TileSelector_init_sheets[OF assms] by simp
  have d: "(\<forall>p \<in> set paths. fs p \<noteq> Some Undecodable) \<longrightarrow>
            (\<exists>sel. snd (TileSelector_init fs paths ts) = Inr sel
               \<and> length (tileset_images sel) = length (filter (path_exists fs) paths)
               \<and> tileset_names sel = map basename (filter (path_exists fs) paths))"
    unfolding TileSelector_init_sheets[OF assms] by simp
  show ?thesis using a b c d by blast
qed

theorem missing_skipped_undecodable_fatal_witness:
  "(48::int) \<noteq> 0
   \<and> TileSelector_init example_fs [''assets/nowhere.png'', ''assets/ragged.png''] 48
       = ([Warning_not_found ''assets/nowhere.png'', Load_ok 1 ''assets/ragged.png'' 2],
          Inr \<lparr>sel_tile_size = 48,
               tileset_images = [[cut_tile ''assets/ragged.png'' 48 0 0, cut_tile ''assets/ragged.png'' 48 1 0]],
               tileset_names = [''ragged.png'']\<rparr>)
   \<and> snd (TileSelector_init example_fs [''assets/nowhere.png'', ''assets/ragged.png''] 48)
       = snd (TileSelector_init example_fs [''assets/ragged.png''] 48)
   \<and> TileSelector_init example_fs [''assets/nowhere.png''] 48
       = ([Warning_not_found ''assets/nowhere.png''],
          Inr \<lparr>sel_tile_size = 48, tileset_images = [], tileset_names = []\<rparr>)
   \<and> snd (TileSelector_init example_fs [''assets/nowhere.png'', ''assets/broken.png'', ''assets/ragged.png''] 48)
       = Inl RuntimeError
   \<and> example_fs ''assets/nowhere.png'' \<noteq> Some Undecodable
   \<and> example_fs ''assets/ragged.png'' \<noteq> Some Undecodable
   \<and> (\<exists>sel. snd (TileSelector_init example_fs [''assets/nowhere.png'', ''assets/ragged.png''] 48) = Inr sel
          \<and> length (tileset_images sel) = 1 \<and> tileset_names sel = [''ragged.png''])
   \<and> filter is_warning (fst (TileSelector_init example_fs [''assets/nowhere.png'', ''assets/ragged.png''] 48))
       = [Warning_not_found ''assets/nowhere.png'']"
proof -
  have nz: "(48::int) \<noteq> 0" by simp
  have good: "\<forall>p \<in> set [''assets/nowhere.png'', ''assets/ragged.png'']. example_fs p \<noteq> Some Undecodable"
    by code_simp
  have names: "map basename [''assets/ragged.png''] = [''ragged.png'']" by code_simp
  have before: "filter (\<lambda>p. \<not> path_exists example_fs p)
                  (takeWhile (\<lambda>p. example_fs p \<noteq> Some Undecodable) [''assets/nowhere.png'', ''assets/ragged.png''])
                = [''assets/nowhere.png'']"
    by code_simp
  have found: "filter (path_exists example_fs) [''assets/nowhere.png'', ''assets/ragged.png'']
                 = [''assets/ragged.png'']"
    by code_simp
  have bad: "\<exists>p \<in> set [''assets/nowhere.png'', ''assets/broken.png'', ''assets/ragged.png''].
               example_fs p = Some Undecodable"
    by code_simp
  have run1: "TileSelector_init example_fs [''assets/nowhere.png'', ''assets/ragged.png''] 48
       = ([Warning_not_found ''assets/nowhere.png'', Load_ok 1 ''assets/ragged.png'' 2],
          Inr \<lparr>sel_tile_size = 48,
               tileset_images = [[cut_tile ''assets/ragged.png'' 48 0 0, cut_tile ''assets/ragged.png'' 48 1 0]],
               tileset_names = [''ragged.png'']\<rparr>)"
    by code_simp
  have run2: "TileSelector_init example_fs [''assets/nowhere.png''] 48
       = ([Warning_not_found ''assets/nowhere.png''],
          Inr \<lparr>sel_tile_size = 48, tileset_images = [], tileset_names = []\<rparr>)"
    by code_simp
  have skip: "snd (TileSelector_init example_fs [''assets/nowhere.png'', ''assets/ragged.png''] 48)
       = snd (TileSelector_init example_fs [''assets/ragged.png''] 48)"
    using missing_skipped_undecodable_fatal[OF nz, of example_fs "[''assets/nowhere.png'', ''assets/ragged.png'']"]
    unfolding found by blast
  have fatal: "snd (TileSelector_init example_fs [''assets/nowhere.png'', ''assets/broken.png'', ''assets/ragged.png''] 48)
       = Inl RuntimeError"
    using missing_skipped_undecodable_fatal[OF nz, of example_fs
        "[''assets/nowhere.png'', ''assets/broken.png'', ''assets/ragged.png'']"] bad
    by blast
  note on_two = missing_skipped_undecodable_fatal[OF nz, of example_fs "[''assets/nowhere.png'', ''assets/ragged.png'']"]
  obtain sel where sel: "snd (TileSelector_init example_fs [''assets/nowhere.png'', ''assets/ragged.png''] 48) = Inr sel"
    and sheets: "length (tileset_images sel)
                   = length (filter (path_exists example_fs) [''assets/nowhere.png'', ''assets/ragged.png''])"
    and sheet_names: "tileset_names sel
                   = map basename (filter (path_exists example_fs) [''assets/nowhere.png'', ''assets/ragged.png''])"
    using on_two good by blast
  have "length (tileset_images sel) = 1" "tileset_names sel = [''ragged.png'']"
    using sheets sheet_names by (simp_all only: found names list.size)
  then have built: "\<exists>sel. snd (TileSelector_init example_fs [''assets/nowhere.png'', ''assets/ragged.png''] 48) = Inr sel
          \<and> length (tileset_images sel) = 1 \<and> tileset_names sel = [''ragged.png'']"
    using sel by blast
  have "filter is_warning (fst (TileSelector_init example_fs [''assets/nowhere.png'', ''assets/ragged.png''] 48))
       = map Warning_not_found
           (filter (\<lambda>p. \<not> path_exists example_fs p)
              (takeWhile (\<lambda>p. example_fs p \<noteq> Some Undecodable) [''assets/nowhere.png'', ''assets/ragged.png'']))"
    using on_two by blast
  then have warned: "filter is_warning (fst (TileSelector_init example_fs [''assets/nowhere.png'', ''assets/ragged.png''] 48))
       = [Warning_not_found ''assets/nowhere.png'']"
    by (simp only: before list.map)
  have each: "example_fs ''assets/nowhere.png'' \<noteq> Some Undecodable"
    "example_fs ''assets/ragged.png'' \<noteq> Some Undecodable"
    using good by simp_all
  show ?thesis using nz run1 run2 skip fatal each built warned by blast
qed

text \<open>
  C5.  On a well-formed grid and with a tile size other than zero, \<open>draw\<close> fetches the two
  images without raising and emits exactly the floor pass followed by the wall pass over
  the visible window: first one operation per Floor cell of the window, then one operation
  per cell of the window that is Wall and whose cell below lies in the grid and is Floor,
  each an image blit when \<open>get_tile\<close> gave an image and otherwise a filled square in the
  fallback colour (light gray for floors, brown for walls).  No other cell is drawn.
\<close>

theorem draw_floor_then_walls:
  assumes "grid_ok s" and "tile_size s \<noteq> 0"
  shows "\<exists>floor_image wall_image.
           get_tile (tile_selector s) (floor_tileset s) (floor_tile s) = Inr floor_image
         \<and> get_tile (tile_selector s) (wall_tileset s) (wall_tile s) = Inr wall_image
         \<and> draw s surface_size camera_x camera_y =
             Inr (floor_pass s floor_image camera_x camera_y (visible_cells s surface_size camera_x camera_y)
                  @ wall_pass s wall_image camera_x camera_y (visible_cells s surface_size camera_x camera_y))"
proof -
  obtain floor_image where f: "get_tile (tile_selector s) (floor_tileset s) (floor_tile s) = Inr floor_image"
    using get_tile_returns by blast
  obtain wall_image where w: "get_tile (tile_selector s) (wall_tileset s) (wall_tile s) = Inr wall_image"
    using get_tile_returns by blast
  show ?thesis using draw_passes[OF assms f w] f w by blast
qed

theorem draw_floor_then_walls_witness:
  "grid_ok (set_tiles example_generated 0 0 3 1) \<and> tile_size (set_tiles example_generated 0 0 3 1) \<noteq> 0
   \<and> visible_cells (set_tiles example_generated 0 0 3 1) (144, 144) 50 50
        = [(1, 1), (1, 2), (1, 3), (1, 4), (2, 1), (2, 2), (2, 3), (2, 4),
           (3, 1), (3, 2), (3, 3), (3, 4), (4, 1), (4, 2), (4, 3), (4, 4)]
   \<and> draw (set_tiles example_generated 0 0 3 1) (144, 144) 50 50
        = Inr [Blit (cut_tile ''assets/tileset1.png'' 48 0 0) (- 2, - 2),
               Blit (cut_tile ''assets/tileset1.png'' 48 0 0) (- 2, 46),
               Blit (cut_tile ''assets/tileset1.png'' 48 0 0) (46, - 2),
               Blit (cut_tile ''assets/tileset1.png'' 48 0 0) (46, 46),
               Blit (cut_tile ''assets/tileset1.png'' 48 0 0) (94, 46),
               Blit (cut_tile ''assets/tileset1.png'' 48 0 0) (142, 46),
               Fill_rect (80, 60, 40) (94, - 2, 48, 48),
               Fill_rect (80, 60, 40) (142, - 2, 48, 48)]"
proof -
  let ?s = "set_tiles example_generated 0 0 3 1"
  have ok: "grid_ok ?s" by code_simp
  have ts: "tile_size ?s \<noteq> 0" by code_simp
  have vis: "visible_cells ?s (144, 144) 50 50
        = [(1, 1), (1, 2), (1, 3), (1, 4), (2, 1), (2, 2), (2, 3), (2, 4),
           (3, 1), (3, 2), (3, 3), (3, 4), (4, 1), (4, 2), (4, 3), (4, 4)]"
    by code_simp
  have imgs: "get_tile (tile_selector ?s) (floor_tileset ?s) (floor_tile ?s)
                = Inr (Some (cut_tile ''assets/tileset1.png'' 48 0 0))"
    "get_tile (tile_selector ?s) (wall_tileset ?s) (wall_tile ?s) = Inr None"
    by code_simp+
  have fp: "floor_pass ?s (Some (cut_tile ''assets/tileset1.png'' 48 0 0)) 50 50
              [(1, 1), (1, 2), (1, 3), (1, 4), (2, 1), (2, 2), (2, 3), (2, 4),
               (3, 1), (3, 2), (3, 3), (3, 4), (4, 1), (4, 2), (4, 3), (4, 4)]
        = [Blit (cut_tile ''assets/tileset1.png'' 48 0 0) (- 2, - 2),
           Blit (cut_tile ''assets/tileset1.png'' 48 0 0) (- 2, 46),
           Blit (cut_tile ''assets/tileset1.png'' 48 0 0) (46, - 2),
           Blit (cut_tile ''assets/tileset1.png'' 48 0 0) (46, 46),
           Blit (cut_tile ''assets/tileset1.png'' 48 0 0) (94, 46),
           Blit (cut_tile ''assets/tileset1.png'' 48 0 0) (142, 46)]"
    by code_simp
  have wp: "wall_pass ?s None 50 50
              [(1, 1), (1, 2), (1, 3), (1, 4), (2, 1), (2, 2), (2, 3), (2, 4),
               (3, 1), (3, 2), (3, 3), (3, 4), (4, 1), (4, 2), (4, 3), (4, 4)]
        = [Fill_rect (80, 60, 40) (94, - 2, 48, 48), Fill_rect (80, 60, 40) (142, - 2, 48, 48)]"
    by code_simp
  obtain floor_image wall_image where
    f: "get_tile (tile_selector ?s) (floor_tileset ?s) (floor_tile ?s) = Inr floor_image" and
    w: "get_tile (tile_selector ?s) (wall_tileset ?s) (wall_tile ?s) = Inr wall_image" and
    d: "draw ?s (144, 144) 50 50 =
          Inr (floor_pass ?s floor_image 50 50 (visible_cells ?s (144, 144) 50 50)
               @ wall_pass ?s wall_image 50 50 (visible_cells ?s (144, 144) 50 50))"
    using draw_floor_then_walls[OF ok ts, of "(144, 144)" 50 50] by blast
  have "floor_image = Some (cut_tile ''assets/tileset1.png'' 48 0 0)" "wall_image = None"
    using f w imgs by simp_all
  then have "draw ?s (144, 144) 50 50
        = Inr [Blit (cut_tile ''assets/tileset1.png'' 48 0 0) (- 2, - 2),
               Blit (cut_tile ''assets/tileset1.png'' 48 0 0) (- 2, 46),
               Blit (cut_tile ''assets/tileset1.png'' 48 0 0) (46, - 2),
               Blit (cut_tile ''assets/tileset1.png'' 48 0 0) (46, 46),
               Blit (cut_tile ''assets/tileset1.png'' 48 0 0) (94, 46),
               Blit (cut_tile ''assets/tileset1.png'' 48 0 0) (142, 46),
               Fill_rect (80, 60, 40) (94, - 2, 48, 48),
               Fill_rect (80, 60, 40) (142, - 2, 48, 48)]"
    using d by (simp only: vis fp wp append.simps)
  then show ?thesis using ok ts vis by blast
qed

text \<open>
  C10.  The grid invariant (\<open>tilemap\<close> is a list of \<open>width\<close> columns of \<open>height\<close> cells,
  every cell 0 or 1) holds for every object that \<open>__init__\<close> returns, and every operation
  keeps it together with \<open>width\<close> and \<open>height\<close>: \<open>generate\<close> always returns, and both the
  object it gives and the object a failing call leaves satisfy it; \<open>create_room\<close> and
  \<open>create_corridor\<close> cannot fail and give an object that satisfies it; \<open>set_tiles\<close> does
  not touch the grid.  \<open>get_tile_at\<close>, \<open>is_walkable\<close> and \<open>draw\<close> assign nothing (they
  return no object); on an object with the invariant they do not raise (\<open>draw\<close> for a tile
  size other than zero), and \<open>get_tile_at\<close> yields 0 or 1.
\<close>

theorem grid_invariant_kept:
  "(MapGenerator_init fs w h ts floor_ts floor_t wall_ts wall_t = (out, Inr s0) \<longrightarrow>
      grid_inv s0 \<and> width s0 = w \<and> height s0 = h)
   \<and> (grid_inv s \<longrightarrow>
        (\<exists>r. generate s rng = Some r)
      \<and> (\<forall>s'. generate s rng = Some (Inr s') \<longrightarrow>
            grid_inv s' \<and> width s' = width s \<and> height s' = height s)
      \<and> (\<forall>e s'. generate s rng = Some (Inl (e, s')) \<longrightarrow>
            grid_inv s' \<and> width s' = width s \<and> height s' = height s)
      \<and> (\<exists>s'. create_room s room = Inr s'
            \<and> grid_inv s' \<and> width s' = width s \<and> height s' = height s)
      \<and> (\<exists>s'. create_corridor s start end' = Some (Inr s')
            \<and> grid_inv s' \<and> width s' = width s \<and> height s' = height s)
      \<and> grid_inv (set_tiles s floor_ts floor_t wall_ts wall_t)
      \<and> width (set_tiles s floor_ts floor_t wall_ts wall_t) = width s
      \<and> height (set_tiles s floor_ts floor_t wall_ts wall_t) = height s
      \<and> (\<exists>v. get_tile_at s x y = Inr v \<and> (v = 0 \<or> v = 1))
      \<and> (\<exists>b. is_walkable s x y = Inr b)
      \<and> (tile_size s \<noteq> 0 \<longrightarrow> (\<exists>ops. draw s surface_size camera_x camera_y = Inr ops)))"
proof -
  have init: "grid_inv s0 \<and> width s0 = w \<and> height s0 = h"
    if "MapGenerator_init fs w h ts floor_ts floor_t wall_ts wall_t = (out, Inr s0)"
    using MapGenerator_init_grid_inv[OF that] MapGenerator_init_grid(1,2)[OF that] by simp
  have ops: "(\<exists>r. generate s rng = Some r)
      \<and> (\<forall>s'. generate s rng = Some (Inr s') \<longrightarrow>
            grid_inv s' \<and> width s' = width s \<and> height s' = height s)
      \<and> (\<forall>e s'. generate s rng = Some (Inl (e, s')) \<longrightarrow>
            grid_inv s' \<and> width s' = width s \<and> height s' = height s)
      \<and> (\<exists>s'. create_room s room = Inr s'
            \<and> grid_inv s' \<and> width s' = width s \<and> height s' = height s)
      \<and> (\<exists>s'. create_corridor s start end' = Some (Inr s')
            \<and> grid_inv s' \<and> width s' = width s \<and> height s' = height s)
      \<and> grid_inv (set_tiles s floor_ts floor_t wall_ts wall_t)
      \<and> width (set_tiles s floor_ts floor_t wall_ts wall_t) = width s
      \<and> height (set_tiles s floor_ts floor_t wall_ts wall_t) = height s
      \<and> (\<exists>v. get_tile_at s x y = Inr v \<and> (v = 0 \<or> v = 1))
      \<and> (\<exists>b. is_walkable s x y = Inr b)
      \<and> (tile_size s \<noteq> 0 \<longrightarrow> (\<exists>ops. draw s surface_size camera_x camera_y = Inr ops))"
    if inv: "grid_inv s"
  proof -
    have ok: "grid_ok s" and cells: "cells_ok s" using inv by (simp_all add: grid_inv_def)
    have a: "\<exists>r. generate s rng = Some r" using ok by (rule generate_returns)
    have b: "grid_inv s' \<and> width s' = width s \<and> height s' = height s"
      if "generate s rng = Some (Inr s')" for s'
      using generate_success[OF ok that] generated_grid_inv by blast
    have c: "grid_inv s' \<and> width s' = width s \<and> height s' = height s"
      if "generate s rng = Some (Inl (e, s'))" for e s'
      using generate_failure[OF ok that] generated_grid_inv by blast
    have d: "\<exists>s'. create_room s room = Inr s' \<and> grid_inv s' \<and> width s' = width s \<and> height s' = height s"
      using create_room_painted[OF ok, of room] painted_grid_inv[OF inv] by blast
    have e: "\<exists>s'. create_corridor s start end' = Some (Inr s')
              \<and> grid_inv s' \<and> width s' = width s \<and> height s' = height s"
      using create_corridor_painted[OF ok, of start end'] painted_grid_inv[OF inv] by blast
    have f: "grid_inv (set_tiles s floor_ts floor_t wall_ts wall_t)"
      "width (set_tiles s floor_ts floor_t wall_ts wall_t) = width s"
      "height (set_tiles s floor_ts floor_t wall_ts wall_t) = height s"
      using inv by (simp_all add: set_tiles_def grid_inv_def grid_ok_def cells_ok_def)
    have g: "\<exists>v. get_tile_at s x y = Inr v \<and> (v = 0 \<or> v = 1)"
      using ok cells by (rule get_tile_at_cells_ok)
    then have h: "\<exists>b. is_walkable s x y = Inr b" by (auto simp: is_walkable_def)
    have i: "\<exists>ops. draw s surface_size camera_x camera_y = Inr ops" if "tile_size s \<noteq> 0"
    proof -
      obtain fi wi where "get_tile (tile_selector s) (floor_tileset s) (floor_tile s) = Inr fi"
        "get_tile (tile_selector s) (wall_tileset s) (wall_tile s) = Inr wi"
        using get_tile_returns by blast
      then show ?thesis using draw_passes[OF ok that] by blast
    qed
    show ?thesis using a b c d e f g h i by blast
  qed
  show ?thesis using init ops by blast
qed

theorem grid_invariant_kept_witness:
  "(\<exists>out s0. MapGenerator_init example_fs 3 2 48 0 0 0 1 = (out, Inr s0)
        \<and> tilemap s0 = [[0, 0], [0, 0], [0, 0]] \<and> grid_inv s0 \<and> width s0 = 3 \<and> height s0 = 2)
   \<and> grid_inv example_map
   \<and> generate example_map example_rng = Some (Inr example_generated) \<and> grid_inv example_generated
   \<and> grid_inv fresh_map
   \<and> generate fresh_map fresh_rng = Some (Inl (ValueError, fresh_failed)) \<and> grid_inv fresh_failed
   \<and> (\<exists>s'. create_room example_map (Rect 6 5 4 4) = Inr s' \<and> grid_inv s' \<and> get_tile_at s' 7 6 = Inr 1)
   \<and> (\<exists>s'. create_corridor example_map (- 2, 2) (2, 4) = Some (Inr s') \<and> grid_inv s')
   \<and> grid_inv (set_tiles example_map 0 0 0 1)
   \<and> (\<exists>v. get_tile_at example_map 0 0 = Inr v \<and> (v = 0 \<or> v = 1))
   \<and> (\<exists>b. is_walkable example_map 0 0 = Inr b)
   \<and> tile_size example_map \<noteq> 0
   \<and> (\<exists>ops. draw example_map (144, 144) 0 0 = Inr ops)"
proof -
  have run: "case MapGenerator_init example_fs 3 2 48 0 0 0 1 of
               (out, Inr s0) \<Rightarrow> tilemap s0 = [[0, 0], [0, 0], [0, 0]] | _ \<Rightarrow> False"
    by code_simp
  then obtain out s0 where init: "MapGenerator_init example_fs 3 2 48 0 0 0 1 = (out, Inr s0)"
    and tm: "tilemap s0 = [[0, 0], [0, 0], [0, 0]]"
    by (auto split: prod.splits sum.splits)
  have inv: "grid_inv example_map" "grid_inv fresh_map" by code_simp+
  have gen: "generate example_map example_rng = Some (Inr example_generated)" by (rule example_generate)
  have fail: "generate fresh_map fresh_rng = Some (Inl (ValueError, fresh_failed))" by code_simp
  note on_example = grid_invariant_kept[of example_fs 3 2 48 0 0 0 1 out s0 example_map example_rng
      "Rect 6 5 4 4" "(- 2, 2)" "(2, 4)" 0 0 "(144, 144)" 0 0]
  note on_fresh = grid_invariant_kept[of example_fs 3 2 48 0 0 0 1 out s0 fresh_map fresh_rng
      "Rect 6 5 4 4" "(- 2, 2)" "(2, 4)" 0 0 "(144, 144)" 0 0]
  have a: "grid_inv s0 \<and> width s0 = 3 \<and> height s0 = 2" using on_example init by blast
  have b: "grid_inv example_generated" using on_example inv(1) gen by blast
  have c: "grid_inv fresh_failed" using on_fresh inv(2) fail by blast
  have room: "case create_room example_map (Rect 6 5 4 4) of
                Inr s' \<Rightarrow> get_tile_at s' 7 6 = Inr 1 | _ \<Rightarrow> False"
    by code_simp
  obtain s1 where r1: "create_room example_map (Rect 6 5 4 4) = Inr s1" and i1: "grid_inv s1"
    using on_example inv(1) by blast
  have d: "get_tile_at s1 7 6 = Inr 1" using room r1 by simp
  have e: "\<exists>s'. create_corridor example_map (- 2, 2) (2, 4) = Some (Inr s') \<and> grid_inv s'"
    using on_example inv(1) by blast
  have ts: "tile_size example_map \<noteq> 0" by code_simp
  have f: "grid_inv (set_tiles example_map 0 0 0 1)"
    "\<exists>v. get_tile_at example_map 0 0 = Inr v \<and> (v = 0 \<or> v = 1)"
    "\<exists>b. is_walkable example_map 0 0 = Inr b"
    "\<exists>ops. draw example_map (144, 144) 0 0 = Inr ops"
    using on_example inv(1) ts by blast+
  show ?thesis using init tm a inv gen fail b c r1 i1 d e ts f by blast
qed

end
